theory Spec2Isabelle
  imports Complex_Main "HOL-Library.AList"
begin

section \<open>JavaScript strings\<close>

text \<open>
  A JavaScript string is modelled as a \<^typ>\<open>string\<close>: a list of code units, restricted
  to the code units 0..255. Of these, \<open>String.prototype.trim\<close> and the numeric
  conversions treat TAB, LF, VT, FF, CR, SPACE and NO-BREAK SPACE as white space.
\<close>

definition isWhiteSpace :: "char \<Rightarrow> bool" where
  "isWhiteSpace c \<longleftrightarrow> of_char c \<in> {9, 10, 11, 12, 13, 32, 160 :: nat}"

text \<open>\<open>s.trim()\<close>\<close>

definition trim :: "string \<Rightarrow> string" where
  "trim s = rev (dropWhile isWhiteSpace (rev (dropWhile isWhiteSpace s)))"

text \<open>
  \<open>s.split(sep)\<close> for a one-character separator; \<open>cur\<close> is the piece being read.
  The result is never empty: \<open>"".split('\n')\<close> is \<open>[""]\<close>.
\<close>

fun splitOn :: "char \<Rightarrow> string \<Rightarrow> string \<Rightarrow> string list" where
  "splitOn sep cur [] = [cur]"
| "splitOn sep cur (c # cs) =
     (if c = sep then cur # splitOn sep [] cs else splitOn sep (cur @ [c]) cs)"

definition split :: "string \<Rightarrow> string list" where
  "split s = splitOn (CHR ''\<newline>'') [] s"

section \<open>JavaScript numbers\<close>

text \<open>
  A number is a binary64 value: a finite value, one of the two infinities, or NaN. A
  finite value is carried as the real it denotes; the sign of zero is not modelled.
\<close>

datatype jsnum = Fin real | PosInf | NegInf | NaN

text \<open>
  Rounding to the nearest binary64 value, ties to even. \<open>binade x\<close> is the exponent of
  \<open>x\<close>, not below that of the subnormal numbers; the values of that exponent are the
  multiples of \<open>2\<^bsup>binade x - 52\<^esup>\<close>. A result of magnitude \<open>2\<^sup>1\<^sup>0\<^sup>2\<^sup>4\<close> or more is an
  infinity. Every arithmetic operation below returns the exact result rounded by \<open>fl\<close>.
\<close>

definition roundHalfEven :: "real \<Rightarrow> int" where
  "roundHalfEven y =
     (let f = \<lfloor>y\<rfloor>; d = y - of_int f
      in if d < 1 / 2 then f else if 1 / 2 < d then f + 1 else if even f then f else f + 1)"

definition binade :: "real \<Rightarrow> int" where
  "binade x = max \<lfloor>log 2 \<bar>x\<bar>\<rfloor> (- 1022)"

definition fl :: "real \<Rightarrow> jsnum" where
  "fl x =
     (if x = 0 then Fin 0
      else
        (let q = 2 powi (binade x - 52);
             r = of_int (roundHalfEven (x / q)) * q
         in if 2 ^ 1024 \<le> r then PosInf
            else if r \<le> - (2 ^ 1024) then NegInf
            else Fin r))"

text \<open>
  The reals that are binary64 values: an integer of fewer than 54 bits times a power of
  two, within the exponent range.
\<close>

definition isDouble :: "real \<Rightarrow> bool" where
  "isDouble x \<longleftrightarrow>
     (\<exists>m j. x = of_int m * 2 powi j \<and> \<bar>m\<bar> < 2 ^ 53 \<and> - 1074 \<le> j) \<and> \<bar>x\<bar> < 2 ^ 1024"

fun neg :: "jsnum \<Rightarrow> jsnum" where
  "neg (Fin x) = Fin (- x)"
| "neg PosInf = NegInf"
| "neg NegInf = PosInf"
| "neg NaN = NaN"

subsection \<open>Numeric literals in strings\<close>

definition isDigit :: "char \<Rightarrow> bool" where
  "isDigit c \<longleftrightarrow> 48 \<le> (of_char c :: nat) \<and> (of_char c :: nat) \<le> 57"

definition digitVal :: "char \<Rightarrow> nat" where
  "digitVal c = of_char c - 48"

definition digitsValue :: "nat \<Rightarrow> (char \<Rightarrow> nat) \<Rightarrow> string \<Rightarrow> nat" where
  "digitsValue base dv ds = foldl (\<lambda>acc c. base * acc + dv c) 0 ds"

definition scale10 :: "real \<Rightarrow> int \<Rightarrow> real" where
  "scale10 m e = (if 0 \<le> e then m * 10 ^ nat e else m / 10 ^ nat (- e))"

text \<open>
  The optional \<open>ExponentPart\<close> at the head of \<open>s\<close>: \<open>e\<close> or \<open>E\<close>, an optional sign, and
  at least one digit. Without a digit nothing is consumed.
\<close>

definition scanExponent :: "string \<Rightarrow> int \<times> string" where
  "scanExponent s =
     (case s of
        [] \<Rightarrow> (0, s)
      | c # r \<Rightarrow>
          if c = CHR ''e'' \<or> c = CHR ''E'' then
            (let (sg, r') =
                   (case r of
                      [] \<Rightarrow> (1, r)
                    | d # r'' \<Rightarrow>
                        if d = CHR ''+'' then (1, r'')
                        else if d = CHR ''-'' then (- 1, r'')
                        else (1, r));
                 ds = takeWhile isDigit r'
             in if ds = [] then (0, s)
                else (sg * int (digitsValue 10 digitVal ds), dropWhile isDigit r'))
          else (0, s))"

text \<open>
  The longest prefix of \<open>s\<close> that is a \<open>StrUnsignedDecimalLiteral\<close>
  (\<open>Infinity\<close>, \<open>digits\<close>, \<open>digits.\<close>, \<open>digits.digits\<close> or \<open>.digits\<close>, then an optional
  exponent), with its value and the rest of the string. The value is the decimal's
  mathematical value rounded to binary64 (an engine may first round a literal of more
  than 20 significant digits to 20).
\<close>

definition scanUnsigned :: "string \<Rightarrow> (jsnum \<times> string) option" where
  "scanUnsigned s =
     (if take 8 s = ''Infinity'' then Some (PosInf, drop 8 s)
      else
        (let ip = takeWhile isDigit s;
             r1 = dropWhile isDigit s;
             (fp, r2) =
               (case r1 of
                  [] \<Rightarrow> ([], r1)
                | c # r \<Rightarrow>
                    if c = CHR ''.'' \<and> (ip \<noteq> [] \<or> takeWhile isDigit r \<noteq> [])
                    then (takeWhile isDigit r, dropWhile isDigit r)
                    else ([], r1))
         in if ip = [] \<and> fp = [] then None
            else
              (let (e, r3) = scanExponent r2;
                   m = real (digitsValue 10 digitVal ip)
                       + real (digitsValue 10 digitVal fp) / 10 ^ length fp
               in Some (fl (scale10 m e), r3))))"

text \<open>The longest prefix that is a \<open>StrDecimalLiteral\<close>: an optional sign first.\<close>

definition scanDecimal :: "string \<Rightarrow> (jsnum \<times> string) option" where
  "scanDecimal s =
     (case s of
        [] \<Rightarrow> None
      | c # r \<Rightarrow>
          if c = CHR ''-'' then map_option (\<lambda>(v, t). (neg v, t)) (scanUnsigned r)
          else if c = CHR ''+'' then scanUnsigned r
          else scanUnsigned s)"

text \<open>
  \<open>parseFloat(s)\<close>: leading white space is dropped, the longest decimal-literal prefix is
  converted, anything after it is ignored; NaN when there is no such prefix.
\<close>

definition parseFloat :: "string \<Rightarrow> jsnum" where
  "parseFloat s =
     (case scanDecimal (dropWhile isWhiteSpace s) of
        None \<Rightarrow> NaN
      | Some (v, rest) \<Rightarrow> v)"

definition hexVal :: "char \<Rightarrow> nat" where
  "hexVal c =
     (let n = (of_char c :: nat)
      in if n \<le> 57 then n - 48 else if n \<le> 70 then n - 55 else n - 87)"

definition isHexDigit :: "char \<Rightarrow> bool" where
  "isHexDigit c \<longleftrightarrow>
     (let n = (of_char c :: nat)
      in (48 \<le> n \<and> n \<le> 57) \<or> (65 \<le> n \<and> n \<le> 70) \<or> (97 \<le> n \<and> n \<le> 102))"

definition isOctalDigit :: "char \<Rightarrow> bool" where
  "isOctalDigit c \<longleftrightarrow> 48 \<le> (of_char c :: nat) \<and> (of_char c :: nat) \<le> 55"

definition isBinaryDigit :: "char \<Rightarrow> bool" where
  "isBinaryDigit c \<longleftrightarrow> c = CHR ''0'' \<or> c = CHR ''1''"

text \<open>\<open>0b\<close>, \<open>0o\<close> and \<open>0x\<close> integer literals (no sign), NaN for anything else.\<close>

definition nonDecimalLiteral :: "string \<Rightarrow> jsnum" where
  "nonDecimalLiteral s =
     (case s of
        z # x # ds \<Rightarrow>
          if z = CHR ''0'' \<and> ds \<noteq> [] then
            (if (x = CHR ''b'' \<or> x = CHR ''B'') \<and> list_all isBinaryDigit ds
               then fl (real (digitsValue 2 digitVal ds))
             else if (x = CHR ''o'' \<or> x = CHR ''O'') \<and> list_all isOctalDigit ds
               then fl (real (digitsValue 8 digitVal ds))
             else if (x = CHR ''x'' \<or> x = CHR ''X'') \<and> list_all isHexDigit ds
               then fl (real (digitsValue 16 hexVal ds))
             else NaN)
          else NaN
      | _ \<Rightarrow> NaN)"

text \<open>
  The conversion of a string to a number, as \<open>Number(s)\<close> and the global \<open>isNaN\<close> apply
  it: the string is trimmed; the empty string is 0; otherwise the whole string must be a
  numeric literal.
\<close>

definition StringToNumber :: "string \<Rightarrow> jsnum" where
  "StringToNumber s =
     (let t = trim s
      in if t = [] then Fin 0
         else (case scanDecimal t of
                 Some (v, []) \<Rightarrow> v
               | _ \<Rightarrow> nonDecimalLiteral t))"

text \<open>The global \<open>isNaN(value)\<close>, applied to a string.\<close>

definition isNaN :: "string \<Rightarrow> bool" where
  "isNaN v \<longleftrightarrow> StringToNumber v = NaN"

section \<open>The line splitter\<close>

text \<open>
  \<open>CSVParser.parseCSVLine\<close>. The loop over \<open>i\<close> is a recursion on the characters still to
  be read; \<open>nextChar\<close> is the head of the rest, and the extra \<open>i++\<close> of an escaped quote
  drops it.
\<close>

fun splitFields :: "string \<Rightarrow> string list \<Rightarrow> string \<Rightarrow> bool \<Rightarrow> string list" where
  "splitFields [] result current insideQuotes = result @ [trim current]"
| "splitFields (char # rest) result current insideQuotes =
     (if char = CHR 0x22 then
        (case rest of
           nextChar # rest' \<Rightarrow>
             if insideQuotes \<and> nextChar = CHR 0x22
             then splitFields rest' result (current @ [CHR 0x22]) insideQuotes
             else splitFields rest result current (\<not> insideQuotes)
         | [] \<Rightarrow> splitFields rest result current (\<not> insideQuotes))
      else if char = CHR '','' \<and> \<not> insideQuotes then
        splitFields rest (result @ [trim current]) [] insideQuotes
      else splitFields rest result (current @ [char]) insideQuotes)"

definition parseCSVLine :: "string \<Rightarrow> string list" where
  "parseCSVLine line = splitFields line [] [] False"

section \<open>Values, records and the parser object\<close>

text \<open>
  The values that a property read can yield here: a number, a string, \<open>undefined\<close>, or a
  member inherited from \<open>Object.prototype\<close> (a function or an object, never a number).
\<close>

datatype jsval = Num jsnum | Str string | Undefined | Inherited

fun numberOf :: "jsval \<Rightarrow> jsnum option" where
  "numberOf (Num x) = Some x"
| "numberOf v = None"

text \<open>\<open>typeof v === 'number'\<close>; NaN and the infinities are numbers.\<close>

definition isNumber :: "jsval \<Rightarrow> bool" where
  "isNumber v \<longleftrightarrow> numberOf v \<noteq> None"

text \<open>
  A record (\<open>row\<close>) is a plain object created by \<open>{}\<close>: its own properties are an
  association list in insertion order, with one entry for each key. The order in which an
  engine enumerates integer-like keys is not modelled.
\<close>

type_synonym row = "(string \<times> jsval) list"

definition objectPrototypeKeys :: "string list" where
  "objectPrototypeKeys =
     [''constructor'', ''hasOwnProperty'', ''isPrototypeOf'', ''propertyIsEnumerable'',
      ''toLocaleString'', ''toString'', ''valueOf'', ''__proto__'',
      ''__defineGetter__'', ''__defineSetter__'', ''__lookupGetter__'', ''__lookupSetter__'']"

text \<open>
  \<open>row[key] = v\<close> for a number or string \<open>v\<close>. The key \<open>__proto__\<close> is an inherited
  accessor whose setter ignores a value that is neither an object nor null, so no own
  property appears; every other key becomes (or overwrites) an own property.
\<close>

definition setProp :: "row \<Rightarrow> string \<Rightarrow> jsval \<Rightarrow> row" where
  "setProp r key v = (if key = ''__proto__'' then r else AList.update key v r)"

text \<open>\<open>row[key]\<close>\<close>

definition getProp :: "row \<Rightarrow> string \<Rightarrow> jsval" where
  "getProp r key =
     (case map_of r key of
        Some v \<Rightarrow> v
      | None \<Rightarrow> if key \<in> set objectPrototypeKeys then Inherited else Undefined)"

text \<open>\<open>Object.keys(row)\<close>, up to order.\<close>

definition keys :: "row \<Rightarrow> string list" where
  "keys r = map fst r"

text \<open>
  The parser object has the fields \<open>data\<close> and \<open>headers\<close>; the object that \<open>parse\<close>
  returns has the same two fields, so one record type serves for both.
\<close>

record table =
  data :: "row list"
  headers :: "string list"

datatype error = Error string | TypeError

definition EmptyInputError :: error where
  "EmptyInputError = Error ''CSV file is empty''"

definition NoHeadersError :: error where
  "NoHeadersError = Error ''No headers found in CSV''"

definition NoDataError :: error where
  "NoDataError = Error ''No valid data rows found in CSV''"

section \<open>parse\<close>

text \<open>\<open>isNaN(value) ? value : parseFloat(value)\<close>\<close>

definition coerce :: "string \<Rightarrow> jsval" where
  "coerce v = (if isNaN v then Str v else Num (parseFloat v))"

text \<open>
  The \<open>forEach\<close> over the headers that fills one row. It runs only when \<open>values\<close> and
  \<open>headers\<close> have the same length, so \<open>values[index]\<close> is the element paired with the
  header.
\<close>

definition makeRow :: "string list \<Rightarrow> string list \<Rightarrow> row" where
  "makeRow hs values = foldl (\<lambda>r (header, v). setProp r header (coerce v)) [] (zip hs values)"

text \<open>
  The loop over \<open>lines[1..]\<close>; \<open>acc\<close> is \<open>this.data\<close>. The warning that the loop logs
  for a skipped row has no effect on the parser and is left out.
\<close>

fun parseRows :: "string list \<Rightarrow> string list \<Rightarrow> row list \<Rightarrow> row list" where
  "parseRows hs [] acc = acc"
| "parseRows hs (l # ls) acc =
     (let line = trim l
      in if line = [] then parseRows hs ls acc
         else
           (let values = parseCSVLine line
            in if length values \<noteq> length hs then parseRows hs ls acc
               else parseRows hs ls (acc @ [makeRow hs values])))"

text \<open>
  \<open>CSVParser.parse\<close>: the result is the thrown error or the returned table, together
  with the parser object as the call leaves it. \<open>lines[0]\<close> is read only when \<open>lines\<close>
  is not empty.
\<close>

definition parse :: "string \<Rightarrow> table \<Rightarrow> (error + table) \<times> table" where
  "parse csvString this =
     (let lines = split (trim csvString)
      in if length lines = 0 then (Inl (Error ''CSV file is empty''), this)
         else
           (let this1 = this\<lparr>headers := parseCSVLine (hd lines)\<rparr>
            in if length (headers this1) = 0
               then (Inl (Error ''No headers found in CSV''), this1)
               else
                 (let this2 = this1\<lparr>data := parseRows (headers this1) (tl lines) []\<rparr>
                  in if length (data this2) = 0
                     then (Inl (Error ''No valid data rows found in CSV''), this2)
                     else (Inr \<lparr>data = data this2, headers = headers this2\<rparr>, this2))))"

section \<open>Queries\<close>

text \<open>\<open>CSVParser.getNumericColumns\<close>\<close>

definition getNumericColumns :: "table \<Rightarrow> string list" where
  "getNumericColumns this =
     (if length (data this) = 0 then []
      else filter (\<lambda>header. list_ex (\<lambda>r. isNumber (getProp r header)) (data this))
             (headers this))"

subsection \<open>Arithmetic on numbers\<close>

fun add :: "jsnum \<Rightarrow> jsnum \<Rightarrow> jsnum" where
  "add NaN y = NaN"
| "add x NaN = NaN"
| "add (Fin a) (Fin b) = fl (a + b)"
| "add PosInf NegInf = NaN"
| "add NegInf PosInf = NaN"
| "add PosInf y = PosInf"
| "add x PosInf = PosInf"
| "add NegInf y = NegInf"
| "add x NegInf = NegInf"

definition sub :: "jsnum \<Rightarrow> jsnum \<Rightarrow> jsnum" where
  "sub x y = add x (neg y)"

fun divide :: "jsnum \<Rightarrow> jsnum \<Rightarrow> jsnum" where
  "divide NaN y = NaN"
| "divide x NaN = NaN"
| "divide (Fin a) (Fin b) =
     (if b = 0 then (if a = 0 then NaN else if 0 < a then PosInf else NegInf)
      else fl (a / b))"
| "divide (Fin a) y = Fin 0"
| "divide PosInf (Fin b) = (if b < 0 then NegInf else PosInf)"
| "divide NegInf (Fin b) = (if b < 0 then PosInf else NegInf)"
| "divide x y = NaN"

text \<open>
  \<open>Math.pow(x, 2)\<close> and \<open>Math.sqrt(x)\<close>. The language leaves the accuracy of both to
  the engine; here they are the correctly rounded square and square root, as the
  engines' libraries compute them.
\<close>

fun Math_pow2 :: "jsnum \<Rightarrow> jsnum" where
  "Math_pow2 (Fin a) = fl (a ^ 2)"
| "Math_pow2 PosInf = PosInf"
| "Math_pow2 NegInf = PosInf"
| "Math_pow2 NaN = NaN"

fun Math_sqrt :: "jsnum \<Rightarrow> jsnum" where
  "Math_sqrt (Fin a) = (if a < 0 then NaN else fl (sqrt a))"
| "Math_sqrt PosInf = PosInf"
| "Math_sqrt NegInf = NaN"
| "Math_sqrt NaN = NaN"

text \<open>\<open>values.reduce((a, b) => a + b, 0)\<close>\<close>

definition sumOf :: "jsnum list \<Rightarrow> jsnum" where
  "sumOf values = foldl add (Fin 0) values"

subsection \<open>Sorting with the comparator \<open>(a, b) => a - b\<close>\<close>

text \<open>
  The comparator puts \<open>a\<close> after \<open>b\<close> when \<open>a - b\<close> is positive; a NaN result counts as 0.
\<close>

fun positive :: "jsnum \<Rightarrow> bool" where
  "positive (Fin d) = (0 < d)"
| "positive PosInf = True"
| "positive NegInf = False"
| "positive NaN = False"

text \<open>
  \<open>Array.prototype.sort\<close> is stable; it is modelled as an insertion sort. When no value
  is NaN the comparator is a consistent ordering and every conforming sort returns this
  list. With a NaN among other values the comparator is inconsistent, the language leaves
  the order to the engine, and this list need not be the engine's: nothing below states
  an order-dependent result for such a list.
\<close>

fun insertSorted :: "jsnum \<Rightarrow> jsnum list \<Rightarrow> jsnum list" where
  "insertSorted x [] = [x]"
| "insertSorted x (y # ys) =
     (if positive (sub x y) then y # insertSorted x ys else x # y # ys)"

definition sortNumbers :: "jsnum list \<Rightarrow> jsnum list" where
  "sortNumbers xs = foldr insertSorted xs []"

text \<open>\<open>xs[i]\<close> on an array of numbers: \<open>undefined\<close> out of range.\<close>

definition elemAt :: "jsnum list \<Rightarrow> nat \<Rightarrow> jsval" where
  "elemAt xs i = (if i < length xs then Num (xs ! i) else Undefined)"

subsection \<open>\<open>toFixed(2)\<close>\<close>

definition digitChar :: "nat \<Rightarrow> char" where
  "digitChar d = ''0123456789'' ! d"

fun decimalDigits :: "nat \<Rightarrow> string" where
  "decimalDigits n =
     (if n < 10 then [digitChar n] else decimalDigits (n div 10) @ [digitChar (n mod 10)])"

declare decimalDigits.simps [simp del]

text \<open>
  The text of a number. \<open>ToString x\<close> stands for the exponent notation that \<open>toFixed\<close>
  falls back to for a finite \<open>x\<close> of magnitude \<open>10\<^sup>2\<^sup>1\<close> or more, such as \<open>1e+21\<close>; its
  digits are not modelled.
\<close>

datatype numtext = Text string | ToString real

text \<open>
  The numeral of \<open>n\<close> hundredths: the digits of \<open>n\<close>, at least three of them, with a
  point before the last two.
\<close>

definition twoDecimals :: "nat \<Rightarrow> string" where
  "twoDecimals n =
     (let m = decimalDigits n;
          m' = replicate (3 - length m) (CHR ''0'') @ m;
          k = length m'
      in take (k - 2) m' @ ''.'' @ drop (k - 2) m')"

text \<open>
  \<open>x.toFixed(2)\<close>: for a magnitude below \<open>10\<^sup>2\<^sup>1\<close>, the sign and then the numeral of the
  integer \<open>n\<close> nearest to \<open>100 * |x|\<close> (the larger one on a tie); for a larger magnitude,
  the exponent notation.
\<close>

definition toFixed2 :: "jsnum \<Rightarrow> numtext" where
  "toFixed2 x =
     (case x of
        NaN \<Rightarrow> Text ''NaN''
      | PosInf \<Rightarrow> Text ''Infinity''
      | NegInf \<Rightarrow> Text ''-Infinity''
      | Fin r \<Rightarrow>
          if 10 ^ 21 \<le> \<bar>r\<bar> then ToString r
          else Text ((if r < 0 then ''-'' else []) @ twoDecimals (nat \<lfloor>\<bar>r\<bar> * 100 + 1 / 2\<rfloor>)))"

subsection \<open>Column statistics\<close>

record stats =
  count :: nat
  minv :: jsval
  maxv :: jsval
  mean :: numtext
  median :: numtext
  stdev :: numtext

text \<open>\<open>CSVParser.calculateStdev\<close>\<close>

definition calculateStdev :: "jsnum list \<Rightarrow> jsnum \<Rightarrow> jsnum" where
  "calculateStdev values mean' =
     (let squaredDiffs = map (\<lambda>val. Math_pow2 (sub val mean')) values;
          variance = divide (sumOf squaredDiffs) (Fin (real (length values)))
      in Math_sqrt variance)"

text \<open>The cells of a column that are numbers, in row order.\<close>

definition numericValues :: "table \<Rightarrow> string \<Rightarrow> jsnum list" where
  "numericValues this columnName =
     List.map_filter numberOf (map (\<lambda>r. getProp r columnName) (data this))"

text \<open>
  \<open>CSVParser.getColumnStats\<close>: \<open>Inr None\<close> is the returned \<open>null\<close>. Calling \<open>toFixed\<close>
  on \<open>undefined\<close> would throw a \<open>TypeError\<close>.
\<close>

definition getColumnStats :: "table \<Rightarrow> string \<Rightarrow> error + stats option" where
  "getColumnStats this columnName =
     (let values = numericValues this columnName
      in if length values = 0 then Inr None
         else
           (let sorted = sortNumbers values;
                sum = sumOf values;
                mean' = divide sum (Fin (real (length values)))
            in case elemAt sorted (length sorted div 2) of
                 Num mid \<Rightarrow>
                   Inr (Some \<lparr>count = length values,
                              minv = elemAt sorted 0,
                              maxv = elemAt sorted (length sorted - 1),
                              mean = toFixed2 mean',
                              median = toFixed2 mid,
                              stdev = toFixed2 (calculateStdev values mean')\<rparr>)
               | _ \<Rightarrow> Inl TypeError))"

section \<open>The quoting rule of the CSV dialect\<close>

text \<open>
  The formatting half of the round trip, in the specification's words: the repository
  has no formatter, and the dialect it accepts is "comma-delimited, double-quote quoting
  with \<open>""\<close> escape". A field is written between double quotes, and every double quote
  inside it is doubled.
\<close>

definition escapeQuotes :: "string \<Rightarrow> string" where
  "escapeQuotes v = concat (map (\<lambda>c. if c = CHR 0x22 then [CHR 0x22, CHR 0x22] else [c]) v)"

definition quoteField :: "string \<Rightarrow> string" where
  "quoteField v = [CHR 0x22] @ escapeQuotes v @ [CHR 0x22]"

section \<open>The lines of an input\<close>

text \<open>
  The vocabulary of the statements about \<open>parse\<close>: the fields of the header line, the
  lines after it, which of them are not blank, the number of fields the splitter finds
  in a line, and the data lines that are not blank and have as many fields as the header,
  each computed as \<open>parse\<close> computes it.
\<close>

definition headerFields :: "string \<Rightarrow> string list" where
  "headerFields s = parseCSVLine (hd (split (trim s)))"

definition dataLines :: "string \<Rightarrow> string list" where
  "dataLines s = tl (split (trim s))"

definition nonBlank :: "string \<Rightarrow> bool" where
  "nonBlank l \<longleftrightarrow> trim l \<noteq> []"

definition fieldCount :: "string \<Rightarrow> nat" where
  "fieldCount l = length (parseCSVLine (trim l))"

definition acceptedLines :: "string \<Rightarrow> string list" where
  "acceptedLines s =
     filter (\<lambda>l. nonBlank l \<and> fieldCount l = length (headerFields s)) (dataLines s)"

section \<open>The statistics as the specification words them\<close>

text \<open>
  These follow the formulas of the specification over the finite numeric values
  \<open>v\<^sub>1 \<dots> v\<^sub>n\<close> of a column, for comparison with \<open>getColumnStats\<close>. The median is the
  element at index \<open>floor(n/2)\<close> of the ascending sort (for even \<open>n\<close> the upper of the two
  middle elements). The mean is \<open>(\<Sum> v\<^sub>i) / n\<close> and the standard deviation is the population
  one, \<open>sqrt((\<Sum> (v\<^sub>i - mean)\<^sup>2) / n)\<close> with divisor \<open>n\<close>; both are evaluated in binary64
  arithmetic, the sums from the left starting at 0.
\<close>

definition specMedian :: "real list \<Rightarrow> real" where
  "specMedian vs = sort vs ! (length vs div 2)"

definition meanDouble :: "real list \<Rightarrow> jsnum" where
  "meanDouble vs = divide (foldl (\<lambda>acc v. add acc (Fin v)) (Fin 0) vs) (Fin (real (length vs)))"

definition stdevDouble :: "real list \<Rightarrow> jsnum" where
  "stdevDouble vs =
     Math_sqrt
       (divide (foldl (\<lambda>acc v. add acc (Math_pow2 (sub (Fin v) (meanDouble vs)))) (Fin 0) vs)
          (Fin (real (length vs))))"

section \<open>Rounding to binary64\<close>

lemma roundHalfEven_of_int: "roundHalfEven (of_int k) = k"
  by (simp add: roundHalfEven_def)

lemma roundHalfEven_near: "\<bar>of_int (roundHalfEven y) - y\<bar> \<le> 1 / 2"
  unfolding roundHalfEven_def Let_def by (auto simp: abs_le_iff)

lemma roundHalfEven_ge1: "1 \<le> y \<Longrightarrow> 1 \<le> roundHalfEven y"
  unfolding roundHalfEven_def Let_def by (auto simp: le_floor_iff) 

lemma roundHalfEven_le0: "y \<le> 0 \<Longrightarrow> roundHalfEven y \<le> 0"
  using roundHalfEven_near [of y] by linarith

lemma two_powr_int: "(2::real) powr real_of_int k = 2 powi k"
  by (simp add: powr_real_of_int')

lemma log2_less_iff: "x \<noteq> 0 \<Longrightarrow> log 2 \<bar>x\<bar> < real_of_int k \<longleftrightarrow> \<bar>x\<bar> < 2 powi k"
  using log_less_iff [of 2 "\<bar>x\<bar>" "real_of_int k"] by (simp add: two_powr_int)

lemma le_log2_iff: "x \<noteq> 0 \<Longrightarrow> real_of_int k \<le> log 2 \<bar>x\<bar> \<longleftrightarrow> 2 powi k \<le> \<bar>x\<bar>"
  using le_log_iff [of 2 "\<bar>x\<bar>" "real_of_int k"] by (simp add: two_powr_int)

lemma floor_log2_upper:
  assumes "x \<noteq> 0"
  shows "\<bar>x\<bar> < 2 powi (\<lfloor>log 2 \<bar>x\<bar>\<rfloor> + 1)"
proof -
  have "log 2 \<bar>x\<bar> < real_of_int (\<lfloor>log 2 \<bar>x\<bar>\<rfloor> + 1)"
    by linarith
  then show ?thesis
    using log2_less_iff [OF assms, of "\<lfloor>log 2 \<bar>x\<bar>\<rfloor> + 1"] by blast
qed

lemma floor_log2_lower:
  assumes "x \<noteq> 0"
  shows "2 powi \<lfloor>log 2 \<bar>x\<bar>\<rfloor> \<le> \<bar>x\<bar>"
proof -
  have "real_of_int \<lfloor>log 2 \<bar>x\<bar>\<rfloor> \<le> log 2 \<bar>x\<bar>"
    by linarith
  then show ?thesis
    using le_log2_iff [OF assms, of "\<lfloor>log 2 \<bar>x\<bar>\<rfloor>"] by blast
qed

lemma floor_log2_less:
  assumes "x \<noteq> 0" and "\<bar>x\<bar> < 2 powi k"
  shows "\<lfloor>log 2 \<bar>x\<bar>\<rfloor> < k"
proof -
  have "log 2 \<bar>x\<bar> < real_of_int k"
    using log2_less_iff [OF assms(1), of k] assms(2) by blast
  then show ?thesis by linarith
qed

lemma binade_upper:
  assumes "x \<noteq> 0"
  shows "\<bar>x\<bar> < 2 powi (binade x + 1)"
proof -
  have "\<lfloor>log 2 \<bar>x\<bar>\<rfloor> + 1 \<le> binade x + 1"
    by (simp add: binade_def)
  then have "(2::real) powi (\<lfloor>log 2 \<bar>x\<bar>\<rfloor> + 1) \<le> 2 powi (binade x + 1)"
    by (intro power_int_increasing) auto
  with floor_log2_upper [OF assms] show ?thesis by linarith
qed

lemma binade_ge: "- 1022 \<le> binade x"
  by (simp add: binade_def)


lemma pow53_powi: "(2::real) ^ 53 * 2 powi k = 2 powi (53 + k)"
  by (subst power_int_add) auto

lemma real_of_int_less_pow53: "\<bar>m\<bar> < 2 ^ 53 \<Longrightarrow> real_of_int \<bar>m\<bar> < 2 ^ 53" for m :: int
  using of_int_less_iff [of "\<bar>m\<bar>" "2 ^ 53", where 'a = real] by simp

lemma fl_exact:
  assumes "isDouble x"
  shows "fl x = Fin x"
proof (cases "x = 0")
  case True
  then show ?thesis by (simp add: fl_def)
next
  case False
  obtain m j where x: "x = of_int m * 2 powi j" and m: "\<bar>m\<bar> < 2 ^ 53" and j: "- 1074 \<le> j"
    and lim: "\<bar>x\<bar> < 2 ^ 1024"
    using assms unfolding isDouble_def by blast
  have "\<bar>x\<bar> = real_of_int \<bar>m\<bar> * 2 powi j"
    by (simp add: x abs_mult)
  also have "\<dots> < 2 ^ 53 * 2 powi j"
  proof -
    have "real_of_int \<bar>m\<bar> < 2 ^ 53" using m by (rule real_of_int_less_pow53)
    then show ?thesis by (intro mult_strict_right_mono) auto
  qed
  also have "\<dots> = 2 powi (53 + j)"
    by (rule pow53_powi)
  finally have "\<lfloor>log 2 \<bar>x\<bar>\<rfloor> < 53 + j"
    by (rule floor_log2_less [OF False])
  then have e: "binade x - 52 \<le> j"
    using j by (simp add: binade_def)
  define e0 where "e0 = binade x - 52"
  define d where "d = nat (j - e0)"
  have jd: "j = e0 + int d"
    using e by (simp add: d_def e0_def)
  have pj: "(2::real) powi j = 2 powi e0 * 2 ^ d"
    unfolding jd by (simp add: power_int_add)
  have "x / 2 powi e0 = of_int m * 2 ^ d"
    unfolding x pj by simp
  then have q: "x / 2 powi e0 = of_int (m * 2 ^ d)"
    by simp
  have "of_int (roundHalfEven (x / 2 powi e0)) * 2 powi e0 = x / 2 powi e0 * 2 powi e0"
    unfolding q roundHalfEven_of_int ..
  then have r: "of_int (roundHalfEven (x / 2 powi (binade x - 52))) * 2 powi (binade x - 52) = x"
    unfolding e0_def by simp
  have "\<not> 2 ^ 1024 \<le> x" "\<not> x \<le> - (2 ^ 1024)"
    using lim by linarith+
  then show ?thesis
    using False by (simp add: fl_def Let_def r)
qed

lemma fl_isDouble:
  assumes "fl x = Fin r"
  shows "isDouble r"
proof (cases "x = 0")
  case True
  then have "r = 0" using assms by (simp add: fl_def)
  then show ?thesis
    unfolding isDouble_def by (auto intro: exI [of _ 0])
next
  case False
  define q :: real where "q = 2 powi (binade x - 52)"
  define n where "n = roundHalfEven (x / q)"
  have qpos: "0 < q" by (simp add: q_def)
  have r: "r = of_int n * q" and lim: "\<bar>r\<bar> < 2 ^ 1024"
    using assms False
    by (auto simp: fl_def Let_def q_def n_def split: if_splits)
  have "\<bar>x\<bar> < 2 powi (binade x + 1)"
    by (rule binade_upper [OF False])
  also have "\<dots> = 2 ^ 53 * q"
    unfolding q_def pow53_powi by (simp add: ac_simps)
  finally have "\<bar>x / q\<bar> < 2 ^ 53"
    using qpos by (simp add: field_simps)
  then have "\<bar>real_of_int n\<bar> < 2 ^ 53 + 1"
    using roundHalfEven_near [of "x / q"] unfolding n_def by linarith
  then have "real_of_int \<bar>n\<bar> < real_of_int (2 ^ 53 + 1)"
    by simp
  then have "\<bar>n\<bar> < 2 ^ 53 + 1"
    by (simp only: of_int_less_iff)
  then have nb: "\<bar>n\<bar> \<le> 2 ^ 53"
    by linarith
  show ?thesis
  proof (cases "\<bar>n\<bar> < 2 ^ 53")
    case True
    have "r = of_int n * 2 powi (binade x - 52)"
      by (simp add: r q_def)
    moreover have "- 1074 \<le> binade x - 52"
      using binade_ge [of x] by simp
    ultimately show ?thesis
      unfolding isDouble_def using True lim by blast
  next
    case False
    then have "n = 2 ^ 53 \<or> n = - (2 ^ 53)"
      using nb by linarith
    moreover have "2 ^ 53 * q = 2 powi (binade x + 1)"
      unfolding q_def pow53_powi by (simp add: ac_simps)
    ultimately have "r = of_int (if n = 2 ^ 53 then 1 else - 1) * 2 powi (binade x + 1)"
      unfolding r by auto
    moreover have "- 1074 \<le> binade x + 1"
      using binade_ge [of x] by simp
    moreover have "\<bar>if n = 2 ^ 53 then 1 else - 1 :: int\<bar> < 2 ^ 53"
      by simp
    ultimately show ?thesis
      unfolding isDouble_def using lim by blast
  qed
qed


lemma powi_split: "j = e + int d \<Longrightarrow> (2::real) powi j = 2 powi e * 2 ^ d"
  by (simp add: power_int_add)

lemma regroup: "a = real_of_int m * (c * 2 ^ d) \<Longrightarrow> a = of_int (m * 2 ^ d) * c"
  by simp

lemma scale_ge: "1 \<le> k \<Longrightarrow> 0 < t \<Longrightarrow> t \<le> real_of_int k * t"
  by simp

lemma isDouble_grid:
  assumes "isDouble a"
  shows "\<exists>k. a = of_int k * 2 powi (- 1074)"
proof -
  obtain m j where a: "a = of_int m * 2 powi j" and j: "- 1074 \<le> j"
    using assms unfolding isDouble_def by blast
  define d where "d = nat (j + 1074)"
  have "j = - 1074 + int d" using j by (simp add: d_def)
  then have "(2::real) powi j = 2 powi (- 1074) * 2 ^ d"
    by (rule powi_split)
  then have "a = of_int m * (2 powi (- 1074) * 2 ^ d)"
    unfolding a by (rule arg_cong)
  then have "a = of_int (m * 2 ^ d) * 2 powi (- 1074)"
    by (rule regroup)
  then show ?thesis by blast
qed

lemma fl_nonpos: "x \<le> 0 \<Longrightarrow> \<not> positive (fl x)"
proof (cases "x = 0")
  case True
  then show ?thesis by (simp add: fl_def)
next
  case False
  assume "x \<le> 0"
  define q :: real where "q = 2 powi (binade x - 52)"
  have qpos: "0 < q" by (simp add: q_def)
  have "x / q \<le> 0"
    using \<open>x \<le> 0\<close> qpos by (simp add: field_simps)
  then have "roundHalfEven (x / q) \<le> 0"
    by (rule roundHalfEven_le0)
  then have "of_int (roundHalfEven (x / q)) * q \<le> 0"
    using qpos by (simp add: mult_le_0_iff)
  then show ?thesis
    using False by (auto simp: fl_def Let_def q_def [symmetric])
qed

lemma fl_pos:
  assumes "x = of_int k * 2 powi (- 1074)" and "0 < x"
  shows "positive (fl x)"
proof -
  have x0: "x \<noteq> 0" using assms(2) by simp
  define q :: real where "q = 2 powi (binade x - 52)"
  have qpos: "0 < q" by (simp add: q_def)
  have "0 < real_of_int k * 2 powi (- 1074)"
    using assms by simp
  then have "0 < real_of_int k"
    by (simp only: zero_less_mult_iff) (auto simp: not_less)
  then have "1 \<le> k" by simp
  then have low: "2 powi (- 1074) \<le> x"
    unfolding assms(1) by (rule scale_ge) (rule zero_less_power_int, simp)
  have "q \<le> x"
  proof (cases "\<lfloor>log 2 \<bar>x\<bar>\<rfloor> \<le> - 1022")
    case True
    then have "binade x - 52 = - 1074" by (simp add: binade_def)
    then show ?thesis using low unfolding q_def by (simp only:)
  next
    case False
    then have "binade x = \<lfloor>log 2 \<bar>x\<bar>\<rfloor>" by (simp add: binade_def)
    then have "q \<le> 2 powi \<lfloor>log 2 \<bar>x\<bar>\<rfloor>"
      unfolding q_def by (intro power_int_increasing) auto
    also have "\<dots> \<le> \<bar>x\<bar>" by (rule floor_log2_lower [OF x0])
    finally show ?thesis using assms(2) by simp
  qed
  then have "1 \<le> x / q"
    using qpos by (simp add: field_simps)
  then have "1 \<le> roundHalfEven (x / q)"
    by (rule roundHalfEven_ge1)
  then have "0 < of_int (roundHalfEven (x / q)) * q"
    using qpos by (simp add: zero_less_mult_iff)
  then show ?thesis
    using x0 by (auto simp: fl_def Let_def q_def [symmetric])
qed

lemma positive_fl_diff:
  assumes "isDouble a" and "isDouble b"
  shows "positive (fl (a - b)) \<longleftrightarrow> b < a"
proof -
  obtain k where k: "a = of_int k * 2 powi (- 1074)"
    using isDouble_grid [OF assms(1)] by blast
  obtain l where l: "b = of_int l * 2 powi (- 1074)"
    using isDouble_grid [OF assms(2)] by blast
  have g: "a - b = of_int (k - l) * 2 powi (- 1074)"
    by (simp add: k l algebra_simps)
  show ?thesis
  proof (cases "b < a")
    case True
    then show ?thesis using fl_pos [OF g] by simp
  next
    case False
    then show ?thesis using fl_nonpos [of "a - b"] by simp
  qed
qed

lemma isDouble_of_int: "\<bar>k\<bar> < 2 ^ 53 \<Longrightarrow> isDouble (of_int k)"
proof -
  assume k: "\<bar>k\<bar> < 2 ^ 53"
  have "real_of_int \<bar>k\<bar> < 2 ^ 53" using k by (rule real_of_int_less_pow53)
  then have "\<bar>real_of_int k\<bar> < 2 ^ 1024" by simp
  moreover have "real_of_int k = of_int k * 2 powi 0" by simp
  ultimately show ?thesis
    unfolding isDouble_def using k by (intro conjI exI [of _ k] exI [of _ 0]) auto
qed

lemma isDoubleI:
  "x = real_of_int m * 2 powi j \<Longrightarrow> \<bar>m\<bar> < 2 ^ 53 \<Longrightarrow> - 1074 \<le> j \<Longrightarrow> \<bar>x\<bar> < 2 ^ 1024
   \<Longrightarrow> isDouble x"
  unfolding isDouble_def by blast

lemma isDouble_minus: "isDouble x \<Longrightarrow> isDouble (- x)"
proof -
  assume "isDouble x"
  then obtain m j where "x = of_int m * 2 powi j" "\<bar>m\<bar> < 2 ^ 53" "- 1074 \<le> j" "\<bar>x\<bar> < 2 ^ 1024"
    unfolding isDouble_def by blast
  then have "- x = of_int (- m) * 2 powi j \<and> \<bar>- m\<bar> < 2 ^ 53 \<and> - 1074 \<le> j" "\<bar>- x\<bar> < 2 ^ 1024"
    by simp_all
  then show ?thesis unfolding isDouble_def by blast
qed



lemma fl_zero: "fl 0 = Fin 0"
  by (simp add: fl_def)

lemma fl_of_int: "\<bar>k\<bar> < 2 ^ 53 \<Longrightarrow> fl (of_int k) = Fin (of_int k)"
  by (rule fl_exact) (rule isDouble_of_int)

lemma fl_one: "fl 1 = Fin 1"
  using fl_of_int [of 1] by simp

lemma fl_numeral: "(numeral w :: int) < 2 ^ 53 \<Longrightarrow> fl (numeral w) = Fin (numeral w)"
  using fl_of_int [of "numeral w"] by simp

lemma fl_neg_numeral:
  "(numeral w :: int) < 2 ^ 53 \<Longrightarrow> fl (- numeral w) = Fin (- numeral w)"
  using fl_of_int [of "- numeral w"] by simp

lemma fl_neg_one: "fl (- 1) = Fin (- 1)"
  using fl_of_int [of "- 1"] by simp

lemmas fl_simps = fl_zero fl_one fl_neg_one fl_numeral fl_neg_numeral


section \<open>Evaluation and basic facts\<close>

lemmas scan_defs =
  trim_def isWhiteSpace_def scanDecimal_def scanUnsigned_def scanExponent_def isDigit_def
  digitVal_def digitsValue_def scale10_def nonDecimalLiteral_def StringToNumber_def
  isNaN_def parseFloat_def coerce_def fl_simps

lemmas parse_defs =
  parse_def split_def parseCSVLine_def makeRow_def setProp_def

lemma coerce_examples:
  "coerce ''1'' = Num (Fin 1)" "coerce ''2'' = Num (Fin 2)" "coerce ''3'' = Num (Fin 3)"
  "coerce ''4'' = Num (Fin 4)" "coerce ''5'' = Num (Fin 5)" "coerce ''x'' = Str ''x''"
  "coerce ''y'' = Str ''y''" "coerce [] = Num NaN"
  by (simp_all add: scan_defs)

lemma trim_whitespace: "list_all isWhiteSpace s \<Longrightarrow> trim s = []"
proof -
  assume "list_all isWhiteSpace s"
  then have d: "dropWhile isWhiteSpace s = []"
    by (simp add: list_all_iff)
  show ?thesis unfolding trim_def d by simp
qed

lemma splitOn_not_Nil: "splitOn sep cur s \<noteq> []"
  by (induction s arbitrary: cur) simp_all

lemma split_not_Nil: "split s \<noteq> []"
  by (simp add: split_def splitOn_not_Nil)

lemma parseCSVLine_Nil: "parseCSVLine [] = [[]]"
  by (simp add: parseCSVLine_def trim_def)

lemma splitFields_not_Nil: "splitFields s result current q \<noteq> []"
  by (induction s result current q rule: splitFields.induct) (auto split: list.split)

lemma parseCSVLine_not_Nil: "parseCSVLine line \<noteq> []"
  by (simp add: parseCSVLine_def splitFields_not_Nil)

section \<open>The line splitter and the quoting rule\<close>

lemma splitFields_escaped_quote:
  "splitFields (CHR 0x22 # CHR 0x22 # rest) result current True
   = splitFields rest result (current @ [CHR 0x22]) True"
  by simp

lemma splitFields_open_quote:
  "splitFields (CHR 0x22 # rest) result current False = splitFields rest result current True"
  by (simp split: list.split)

lemma splitFields_inside:
  "c \<noteq> CHR 0x22 \<Longrightarrow>
   splitFields (c # rest) result current True = splitFields rest result (current @ [c]) True"
  by simp

lemma escapeQuotes_Nil: "escapeQuotes [] = []"
  by (simp add: escapeQuotes_def)

lemma escapeQuotes_quote: "escapeQuotes (CHR 0x22 # v) = CHR 0x22 # CHR 0x22 # escapeQuotes v"
  by (simp add: escapeQuotes_def)

lemma escapeQuotes_other: "c \<noteq> CHR 0x22 \<Longrightarrow> escapeQuotes (c # v) = c # escapeQuotes v"
  by (simp add: escapeQuotes_def)

text \<open>
  Inside a quoted field the splitter copies the escaped text back, whatever was
  accumulated before, and the closing quote ends the field.
\<close>

lemma splitFields_quoted:
  "splitFields (escapeQuotes v @ [CHR 0x22]) result current True = result @ [trim (current @ v)]"
proof (induction v arbitrary: current)
  case Nil
  show ?case by (simp add: escapeQuotes_Nil)
next
  case (Cons c v)
  show ?case
  proof (cases "c = CHR 0x22")
    case True
    have "splitFields (escapeQuotes (c # v) @ [CHR 0x22]) result current True
          = splitFields (escapeQuotes v @ [CHR 0x22]) result (current @ [CHR 0x22]) True"
      unfolding True escapeQuotes_quote append_Cons by (rule splitFields_escaped_quote)
    also have "\<dots> = result @ [trim ((current @ [CHR 0x22]) @ v)]"
      by (rule Cons.IH)
    finally show ?thesis using True by simp
  next
    case False
    have "splitFields (escapeQuotes (c # v) @ [CHR 0x22]) result current True
          = splitFields (escapeQuotes v @ [CHR 0x22]) result (current @ [c]) True"
      unfolding escapeQuotes_other [OF False] append_Cons by (rule splitFields_inside [OF False])
    also have "\<dots> = result @ [trim ((current @ [c]) @ v)]"
      by (rule Cons.IH)
    finally show ?thesis by simp
  qed
qed

text \<open>
  Claim C9, as amended. Quoting any field value by the documented rule and splitting the
  resulting line gives back exactly one field: the value with its leading and trailing white
  space removed, because the splitter trims every field it produces. A value with no
  white space at either end, such as \<open>Site, A\<close>, comes back unchanged.
\<close>

theorem quoteField_roundtrip_trimmed:
  "parseCSVLine (quoteField v) = [trim v]
   \<and> parseCSVLine (quoteField ''Site, A'') = [''Site, A'']"
proof -
  have g: "parseCSVLine (quoteField w) = [trim w]" for w
    unfolding parseCSVLine_def quoteField_def
    using splitFields_quoted [of w "[]" "[]"]
    by (simp only: append_Cons append_Nil splitFields_open_quote)
  have "trim ''Site, A'' = ''Site, A''"
    by (simp add: trim_def isWhiteSpace_def)
  with g show ?thesis by simp
qed

text \<open>The amended round trip at the value \<open>a"b, c\<close>, which has a quote and a comma.\<close>

theorem quoteField_roundtrip_trimmed_witness:
  "parseCSVLine (quoteField [CHR ''a'', CHR 0x22, CHR ''b'', CHR '','', CHR '' '', CHR ''c''])
   = [[CHR ''a'', CHR 0x22, CHR ''b'', CHR '','', CHR '' '', CHR ''c'']]"
  using quoteField_roundtrip_trimmed
          [of "[CHR ''a'', CHR 0x22, CHR ''b'', CHR '','', CHR '' '', CHR ''c'']"]
  by (simp add: trim_def isWhiteSpace_def)

text \<open>
  Claim C9 as stated fails: the value \<open>a,\<close> followed by a space contains a comma, and
  after quoting and splitting the trailing space is gone.
\<close>

theorem quoteField_roundtrip_counterexample:
  "parseCSVLine (quoteField ''a, '') = [''a,''] \<and> ''a,'' \<noteq> ''a, ''"
  by (simp add: parseCSVLine_def quoteField_def escapeQuotes_def trim_def isWhiteSpace_def)

section \<open>Empty input and failed parses\<close>

text \<open>
  Claim C2, evaluated on the code. For an input that is empty or all white space, \<open>parse\<close>
  throws the error "No valid data rows found in CSV", not "CSV file is empty": the
  trimmed input splits into the one line \<open>""\<close>, so the test \<open>lines.length === 0\<close> is
  false, the header row is the single field \<open>""\<close>, and no data row follows.
\<close>

theorem parse_whitespace_only:
  assumes "list_all isWhiteSpace s"
  shows "fst (parse s this) = Inl NoDataError \<and> fst (parse s this) \<noteq> Inl EmptyInputError"
proof -
  have "trim s = []" using assms by (rule trim_whitespace)
  then show ?thesis
    by (simp add: parse_def split_def parseCSVLine_Nil NoDataError_def EmptyInputError_def)
qed

theorem parse_whitespace_only_witness:
  "list_all isWhiteSpace '' \<newline>  ''
   \<and> fst (parse '' \<newline>  '' \<lparr>data = [], headers = []\<rparr>)
       = Inl (Error ''No valid data rows found in CSV'')"
  using parse_whitespace_only [of "'' \<newline>  ''" "\<lparr>data = [], headers = []\<rparr>"]
  by (simp add: isWhiteSpace_def NoDataError_def)

text \<open>
  Claim C3, as amended. When an input that is not empty or all white space makes \<open>parse\<close>
  fail, the parser object is left holding the fields of that input's first line as its
  headers and no rows: what it stored before the call is overwritten.
\<close>

theorem parse_failure_overwrites:
  assumes "trim s \<noteq> []" and "fst (parse s this) = Inl e"
  shows "snd (parse s this) = this\<lparr>headers := headerFields s, data := []\<rparr>"
  using assms(2)
  by (auto simp: parse_def Let_def split_not_Nil parseCSVLine_not_Nil headerFields_def
           split: if_splits)

theorem parse_failure_overwrites_witness:
  "trim ''x,y\<newline>1'' \<noteq> []
   \<and> fst (parse ''x,y\<newline>1'' \<lparr>data = [[(''a'', Num (Fin 1))]], headers = [''a'']\<rparr>)
     = Inl NoDataError
   \<and> snd (parse ''x,y\<newline>1'' \<lparr>data = [[(''a'', Num (Fin 1))]], headers = [''a'']\<rparr>)
     = \<lparr>data = [], headers = [''x'', ''y'']\<rparr>"
proof -
  have t: "trim ''x,y\<newline>1'' \<noteq> []"
    by (simp add: trim_def isWhiteSpace_def)
  have f: "fst (parse ''x,y\<newline>1'' \<lparr>data = [[(''a'', Num (Fin 1))]], headers = [''a'']\<rparr>)
           = Inl NoDataError"
    by (simp add: parse_defs trim_def isWhiteSpace_def NoDataError_def)
  have h: "headerFields ''x,y\<newline>1'' = [''x'', ''y'']"
    by (simp add: headerFields_def parse_defs trim_def isWhiteSpace_def)
  show ?thesis
    using parse_failure_overwrites [OF t f] t f by (simp add: h)
qed

text \<open>
  Claim C3 as stated fails: a parser that holds a one-row table and is given the
  header-only input \<open>x,y\<close> throws, and afterwards stores the headers \<open>x\<close>, \<open>y\<close> and no
  rows.
\<close>

theorem parse_failure_counterexample:
  "fst (parse ''x,y'' \<lparr>data = [[(''a'', Num (Fin 1))]], headers = [''a'']\<rparr>)
     = Inl (Error ''No valid data rows found in CSV'')
   \<and> headers (snd (parse ''x,y'' \<lparr>data = [[(''a'', Num (Fin 1))]], headers = [''a'']\<rparr>))
     = [''x'', ''y'']
   \<and> data (snd (parse ''x,y'' \<lparr>data = [[(''a'', Num (Fin 1))]], headers = [''a'']\<rparr>)) = []"
  by (simp add: parse_defs trim_def isWhiteSpace_def)

section \<open>Rows of the wrong width\<close>

text \<open>
  The loop keeps, in order, the rows of the lines that are not blank and have the
  header's number of fields, and nothing of the other lines.
\<close>

lemma parseRows_eq:
  "parseRows hs ls acc =
     acc @ map (\<lambda>l. makeRow hs (parseCSVLine (trim l)))
             (filter (\<lambda>l. nonBlank l \<and> fieldCount l = length hs) ls)"
  by (induction ls arbitrary: acc) (simp_all add: Let_def nonBlank_def fieldCount_def)

lemma parse_accepted:
  assumes "acceptedLines s \<noteq> []"
  shows "parse s this =
           (Inr \<lparr>data = map (\<lambda>l. makeRow (headerFields s) (parseCSVLine (trim l)))
                          (acceptedLines s),
                 headers = headerFields s\<rparr>,
            \<lparr>data = map (\<lambda>l. makeRow (headerFields s) (parseCSVLine (trim l)))
                          (acceptedLines s),
                 headers = headerFields s\<rparr>)"
proof -
  have hne: "headerFields s \<noteq> []"
    by (simp add: headerFields_def parseCSVLine_not_Nil)
  have rows: "parseRows (headerFields s) (dataLines s) []
              = map (\<lambda>l. makeRow (headerFields s) (parseCSVLine (trim l))) (acceptedLines s)"
    by (simp add: parseRows_eq acceptedLines_def)
  show ?thesis
    using assms hne
    by (simp add: parse_def Let_def split_not_Nil rows
             headerFields_def [symmetric] dataLines_def [symmetric])
qed

lemma parse_success:
  assumes "fst (parse s this) = Inr t"
  shows "acceptedLines s \<noteq> []"
    and "t = \<lparr>data = map (\<lambda>l. makeRow (headerFields s) (parseCSVLine (trim l)))
                          (acceptedLines s),
               headers = headerFields s\<rparr>"
    and "snd (parse s this) = t"
proof -
  have rows: "parseRows (headerFields s) (dataLines s) []
              = map (\<lambda>l. makeRow (headerFields s) (parseCSVLine (trim l))) (acceptedLines s)"
    by (simp add: parseRows_eq acceptedLines_def)
  show ne: "acceptedLines s \<noteq> []"
    using assms
    by (auto simp: parse_def Let_def rows headerFields_def [symmetric] dataLines_def [symmetric]
             split: if_splits)
  show "t = \<lparr>data = map (\<lambda>l. makeRow (headerFields s) (parseCSVLine (trim l)))
                          (acceptedLines s),
               headers = headerFields s\<rparr>"
    using assms parse_accepted [OF ne, of this] by simp
  then show "snd (parse s this) = t"
    using parse_accepted [OF ne, of this] by simp
qed

lemma parseRows_skip:
  "fieldCount bad \<noteq> length hs \<Longrightarrow>
   parseRows hs (before @ bad # after) acc = parseRows hs (before @ after) acc"
  by (simp add: parseRows_eq)

text \<open>
  Claim C6. The input \<open>a,b\<close> / \<open>1,2\<close> / \<open>1,2,3\<close> / \<open>4,5\<close> parses without error into
  the two rows \<open>{a: 1, b: 2}\<close> and \<open>{a: 4, b: 5}\<close>. In general, whenever some data line
  is not blank and has the header's number of fields, \<open>parse\<close> succeeds and its rows are
  those of exactly these lines, in order: a line with more or fewer fields adds nothing
  and does not stop the lines after it. In the loop itself, a line of another width can
  be dropped from the input without changing the result.
\<close>

theorem parse_skips_mismatched_row:
  "fst (parse ''a,b\<newline>1,2\<newline>1,2,3\<newline>4,5'' this) =
     Inr \<lparr>data = [[(''a'', Num (Fin 1)), (''b'', Num (Fin 2))],
                 [(''a'', Num (Fin 4)), (''b'', Num (Fin 5))]],
          headers = [''a'', ''b'']\<rparr>
   \<and> (acceptedLines s \<noteq> [] \<longrightarrow>
        fst (parse s this) =
          Inr \<lparr>data = map (\<lambda>l. makeRow (headerFields s) (parseCSVLine (trim l)))
                         (acceptedLines s),
                headers = headerFields s\<rparr>)
   \<and> (fieldCount bad \<noteq> length hs \<longrightarrow>
        parseRows hs (before @ bad # after) acc = parseRows hs (before @ after) acc)"
proof (intro conjI impI)
  show "fst (parse ''a,b\<newline>1,2\<newline>1,2,3\<newline>4,5'' this) =
     Inr \<lparr>data = [[(''a'', Num (Fin 1)), (''b'', Num (Fin 2))],
                 [(''a'', Num (Fin 4)), (''b'', Num (Fin 5))]],
          headers = [''a'', ''b'']\<rparr>"
    by (simp add: parse_defs coerce_examples trim_def isWhiteSpace_def)
next
  assume "acceptedLines s \<noteq> []"
  then show "fst (parse s this) =
          Inr \<lparr>data = map (\<lambda>l. makeRow (headerFields s) (parseCSVLine (trim l)))
                         (acceptedLines s),
                headers = headerFields s\<rparr>"
    by (simp add: parse_accepted)
next
  assume "fieldCount bad \<noteq> length hs"
  then show "parseRows hs (before @ bad # after) acc = parseRows hs (before @ after) acc"
    by (rule parseRows_skip)
qed

text \<open>A shorter and a longer line around one of the right width.\<close>

theorem parse_skips_mismatched_row_witness:
  "acceptedLines ''a,b\<newline>1\<newline>4,5\<newline>6,7,8'' = [''4,5'']
   \<and> fst (parse ''a,b\<newline>1\<newline>4,5\<newline>6,7,8'' \<lparr>data = [], headers = []\<rparr>) =
       Inr \<lparr>data = [[(''a'', Num (Fin 4)), (''b'', Num (Fin 5))]], headers = [''a'', ''b'']\<rparr>
   \<and> fieldCount ''1'' = 1
   \<and> parseRows [''a'', ''b''] [''1'', ''4,5''] [] = parseRows [''a'', ''b''] [''4,5''] []"
proof -
  have h: "headerFields ''a,b\<newline>1\<newline>4,5\<newline>6,7,8'' = [''a'', ''b'']"
    by (simp add: headerFields_def parse_defs trim_def isWhiteSpace_def)
  have a: "acceptedLines ''a,b\<newline>1\<newline>4,5\<newline>6,7,8'' = [''4,5'']"
    by (simp add: acceptedLines_def h dataLines_def nonBlank_def fieldCount_def parse_defs
             trim_def isWhiteSpace_def)
  have r: "makeRow [''a'', ''b''] (parseCSVLine (trim ''4,5''))
           = [(''a'', Num (Fin 4)), (''b'', Num (Fin 5))]"
    by (simp add: parse_defs coerce_examples trim_def isWhiteSpace_def)
  have c: "fieldCount ''1'' = 1"
    by (simp add: fieldCount_def parse_defs trim_def isWhiteSpace_def)
  note t = parse_skips_mismatched_row
             [of "\<lparr>data = [], headers = []\<rparr>" "''a,b\<newline>1\<newline>4,5\<newline>6,7,8''"
                 "''1''" "[''a'', ''b'']" "[]" "[''4,5'']" "[]"]
  show ?thesis
    using t unfolding a h c by (simp add: r)
qed

section \<open>Column statistics: when there is nothing to report\<close>

lemma length_insertSorted: "length (insertSorted x ys) = Suc (length ys)"
  by (induction ys) simp_all

lemma length_sortNumbers: "length (sortNumbers xs) = length xs"
  by (induction xs) (simp_all add: sortNumbers_def length_insertSorted)

lemma numericValues_Nil_iff:
  "numericValues this c = [] \<longleftrightarrow> \<not> list_ex (\<lambda>r. isNumber (getProp r c)) (data this)"
  by (auto simp: numericValues_def List.map_filter_def isNumber_def list_ex_iff filter_empty_conv)

lemma getProp_absent: "c \<notin> set (keys r) \<Longrightarrow> \<not> isNumber (getProp r c)"
proof -
  assume "c \<notin> set (keys r)"
  then have "map_of r c = None"
    by (simp add: keys_def map_of_eq_None_iff)
  then show ?thesis by (simp add: getProp_def isNumber_def)
qed

lemma getColumnStats_returns: "\<exists>r. getColumnStats this c = Inr r"
proof (cases "numericValues this c = []")
  case True
  then show ?thesis by (simp add: getColumnStats_def)
next
  case False
  then have "length (numericValues this c) div 2 < length (numericValues this c)"
    by simp
  with False show ?thesis
    by (simp add: getColumnStats_def Let_def elemAt_def length_sortNumbers)
qed

lemma getColumnStats_None_iff:
  "getColumnStats this c = Inr None \<longleftrightarrow> numericValues this c = []"
proof (cases "numericValues this c = []")
  case True
  then show ?thesis by (simp add: getColumnStats_def)
next
  case False
  then have "length (numericValues this c) div 2 < length (numericValues this c)"
    by simp
  with False show ?thesis
    by (simp add: getColumnStats_def Let_def elemAt_def length_sortNumbers)
qed

text \<open>
  Claim C8. \<open>getColumnStats\<close> always returns (it never throws), and it returns \<open>null\<close>
  exactly when no row has a number in the column. In particular it returns \<open>null\<close> when
  no row has the column at all.
\<close>

theorem getColumnStats_absent_iff:
  "(\<exists>r. getColumnStats this c = Inr r)
   \<and> (getColumnStats this c = Inr None
        \<longleftrightarrow> \<not> list_ex (\<lambda>r. isNumber (getProp r c)) (data this))
   \<and> (list_all (\<lambda>r. c \<notin> set (keys r)) (data this) \<longrightarrow> getColumnStats this c = Inr None)"
proof -
  have "list_all (\<lambda>r. c \<notin> set (keys r)) (data this)
        \<Longrightarrow> \<not> list_ex (\<lambda>r. isNumber (getProp r c)) (data this)"
    by (auto simp: list_all_iff list_ex_iff dest: getProp_absent)
  then show ?thesis
    using getColumnStats_returns [of this c]
    by (auto simp: getColumnStats_None_iff numericValues_Nil_iff)
qed

theorem getColumnStats_absent_iff_witness:
  "getColumnStats \<lparr>data = [[(''a'', Num (Fin 1)), (''b'', Str ''x'')]], headers = [''a'', ''b'']\<rparr> ''zz''
     = Inr None
   \<and> getColumnStats \<lparr>data = [[(''a'', Num (Fin 1)), (''b'', Str ''x'')]], headers = [''a'', ''b'']\<rparr> ''b''
     = Inr None
   \<and> getColumnStats \<lparr>data = [[(''a'', Num (Fin 1)), (''b'', Str ''x'')]], headers = [''a'', ''b'']\<rparr> ''a''
     \<noteq> Inr None"
  using getColumnStats_absent_iff
          [of "\<lparr>data = [[(''a'', Num (Fin 1)), (''b'', Str ''x'')]], headers = [''a'', ''b'']\<rparr>" "''zz''"]
        getColumnStats_absent_iff
          [of "\<lparr>data = [[(''a'', Num (Fin 1)), (''b'', Str ''x'')]], headers = [''a'', ''b'']\<rparr>" "''b''"]
        getColumnStats_absent_iff
          [of "\<lparr>data = [[(''a'', Num (Fin 1)), (''b'', Str ''x'')]], headers = [''a'', ''b'']\<rparr>" "''a''"]
  by (simp add: keys_def getProp_def isNumber_def)

section \<open>Numeric columns\<close>

text \<open>
  Claim C7. \<open>getNumericColumns\<close> returns the headers, in header order, for which at
  least one stored row holds a number (\<open>typeof\<close> is \<open>'number'\<close>) under that header; a
  column with the cells 1, \<open>"x"\<close>, 3 is among them.
\<close>

theorem getNumericColumns_filter:
  "getNumericColumns this
     = filter (\<lambda>header. \<exists>r \<in> set (data this). isNumber (getProp r header)) (headers this)
   \<and> getNumericColumns
        \<lparr>data = [[(''c'', Num (Fin 1))], [(''c'', Str ''x'')], [(''c'', Num (Fin 3))]],
         headers = [''c'']\<rparr> = [''c'']"
proof -
  have "getNumericColumns t
     = filter (\<lambda>header. \<exists>r \<in> set (data t). isNumber (getProp r header)) (headers t)" for t
    by (cases "data t") (simp_all add: getNumericColumns_def list_ex_iff)
  then show ?thesis
    by (simp add: getProp_def isNumber_def)
qed

theorem getNumericColumns_filter_witness:
  "getNumericColumns (snd (parse ''s,c,d\<newline>p,1,y\<newline>q,x,2\<newline>r,3,y'' \<lparr>data = [], headers = []\<rparr>))
     = [''c'', ''d'']"
proof -
  have p: "snd (parse ''s,c,d\<newline>p,1,y\<newline>q,x,2\<newline>r,3,y'' \<lparr>data = [], headers = []\<rparr>)
           = \<lparr>data = [[(''s'', Str ''p''), (''c'', Num (Fin 1)), (''d'', Str ''y'')],
                       [(''s'', Str ''q''), (''c'', Str ''x''), (''d'', Num (Fin 2))],
                       [(''s'', Str ''r''), (''c'', Num (Fin 3)), (''d'', Str ''y'')]],
                headers = [''s'', ''c'', ''d'']\<rparr>"
    by (simp add: parse_defs scan_defs Let_def)
  show ?thesis
    unfolding p
    using getNumericColumns_filter
     [of "\<lparr>data = [[(''s'', Str ''p''), (''c'', Num (Fin 1)), (''d'', Str ''y'')],
                       [(''s'', Str ''q''), (''c'', Str ''x''), (''d'', Num (Fin 2))],
                       [(''s'', Str ''r''), (''c'', Num (Fin 3)), (''d'', Str ''y'')]],
                headers = [''s'', ''c'', ''d'']\<rparr>"]
    by (simp add: getProp_def isNumber_def)
qed

section \<open>Empty fields\<close>

lemma add_NaN_right: "add x NaN = NaN"
  by (cases x) simp_all

lemma sub_NaN_right: "sub x NaN = NaN"
  by (simp add: sub_def add_NaN_right)

lemma foldl_add_NaN: "a = NaN \<or> NaN \<in> set xs \<Longrightarrow> foldl add a xs = NaN"
proof (induction xs arbitrary: a)
  case Nil
  then show ?case by simp
next
  case (Cons x xs)
  have "add a x = NaN \<or> NaN \<in> set xs"
    using Cons.prems by (auto simp: add_NaN_right)
  then show ?case using Cons.IH [of "add a x"] by simp
qed

lemma sumOf_NaN: "NaN \<in> set xs \<Longrightarrow> sumOf xs = NaN"
  by (simp add: sumOf_def foldl_add_NaN)

lemma calculateStdev_NaN: "xs \<noteq> [] \<Longrightarrow> calculateStdev xs NaN = NaN"
proof -
  assume "xs \<noteq> []"
  then have "NaN \<in> set (map (\<lambda>val. Math_pow2 (sub val NaN)) xs)"
    by (cases xs) (simp_all add: sub_NaN_right)
  then show ?thesis
    by (simp add: calculateStdev_def Let_def sumOf_NaN)
qed

lemma toFixed2_NaN: "toFixed2 NaN = Text ''NaN''"
  by (simp add: toFixed2_def)

lemma insertSorted_NaN: "insertSorted NaN ys = NaN # ys"
  by (cases ys) (simp_all add: sub_def)

lemma sortNumbers_replicate_NaN: "sortNumbers (replicate n NaN) = replicate n NaN"
  by (induction n) (simp_all add: sortNumbers_def insertSorted_NaN)

lemma numericValues_member:
  "x \<in> set (numericValues this c) \<longleftrightarrow> (\<exists>r \<in> set (data this). getProp r c = Num x)"
proof -
  have "numberOf v = Some x \<longleftrightarrow> v = Num x" for v
    by (cases v) auto
  then show ?thesis
    by (auto simp: numericValues_def List.map_filter_def image_iff)
qed

lemma getColumnStats_Some:
  assumes "numericValues this c \<noteq> []"
  shows "\<exists>mid. elemAt (sortNumbers (numericValues this c)) (length (numericValues this c) div 2)
                 = Num mid
     \<and> getColumnStats this c =
       Inr (Some \<lparr>count = length (numericValues this c),
                  minv = elemAt (sortNumbers (numericValues this c)) 0,
                  maxv = elemAt (sortNumbers (numericValues this c))
                           (length (numericValues this c) - 1),
                  mean = toFixed2 (divide (sumOf (numericValues this c))
                                     (Fin (real (length (numericValues this c))))),
                  median = toFixed2 mid,
                  stdev = toFixed2 (calculateStdev (numericValues this c)
                            (divide (sumOf (numericValues this c))
                               (Fin (real (length (numericValues this c))))))\<rparr>)"
proof -
  have "length (numericValues this c) div 2 < length (numericValues this c)"
    using assms by simp
  then show ?thesis
    using assms by (simp add: getColumnStats_def Let_def elemAt_def length_sortNumbers)
qed

text \<open>
  Claim C1, evaluated on the code. The empty field is coerced to the number NaN, not to
  the string \<open>""\<close>: \<open>isNaN("")\<close> is false because \<open>Number("")\<close> is 0, and
  \<open>parseFloat("")\<close> is NaN. A column with such a cell counts it among its numeric values,
  and its mean and standard deviation are NaN.
\<close>

theorem empty_field_counted:
  "coerce [] = Num NaN
   \<and> (list_ex (\<lambda>r. getProp r c = Num NaN) (data this) \<longrightarrow>
       (\<exists>s. getColumnStats this c = Inr (Some s)
            \<and> count s = length (numericValues this c)
            \<and> NaN \<in> set (numericValues this c)
            \<and> mean s = Text ''NaN'' \<and> stdev s = Text ''NaN''))"
proof -
  have "\<exists>s. getColumnStats this c = Inr (Some s)
            \<and> count s = length (numericValues this c)
            \<and> NaN \<in> set (numericValues this c)
            \<and> mean s = Text ''NaN'' \<and> stdev s = Text ''NaN''"
    if ex: "list_ex (\<lambda>r. getProp r c = Num NaN) (data this)"
  proof -
    have m: "NaN \<in> set (numericValues this c)"
      using ex by (simp add: numericValues_member list_ex_iff)
    then have ne: "numericValues this c \<noteq> []" by auto
    have s: "sumOf (numericValues this c) = NaN"
      using m by (rule sumOf_NaN)
    show ?thesis
      using getColumnStats_Some [OF ne] m
      by (auto simp: s calculateStdev_NaN [OF ne] toFixed2_NaN)
  qed
  then show ?thesis by (simp add: coerce_examples)
qed

theorem empty_field_counted_witness:
  "fst (parse ''a,b\<newline>1,2\<newline>3,\<newline>5,6'' \<lparr>data = [], headers = []\<rparr>)
     = Inr \<lparr>data = [[(''a'', Num (Fin 1)), (''b'', Num (Fin 2))],
                   [(''a'', Num (Fin 3)), (''b'', Num NaN)],
                   [(''a'', Num (Fin 5)), (''b'', Num (Fin 6))]],
            headers = [''a'', ''b'']\<rparr>
   \<and> (\<exists>s. getColumnStats
              \<lparr>data = [[(''a'', Num (Fin 1)), (''b'', Num (Fin 2))],
                       [(''a'', Num (Fin 3)), (''b'', Num NaN)],
                       [(''a'', Num (Fin 5)), (''b'', Num (Fin 6))]],
               headers = [''a'', ''b'']\<rparr> ''b'' = Inr (Some s)
          \<and> count s = 3 \<and> mean s = Text ''NaN'' \<and> stdev s = Text ''NaN'')"
proof -
  have p: "fst (parse ''a,b\<newline>1,2\<newline>3,\<newline>5,6'' \<lparr>data = [], headers = []\<rparr>)
     = Inr \<lparr>data = [[(''a'', Num (Fin 1)), (''b'', Num (Fin 2))],
                   [(''a'', Num (Fin 3)), (''b'', Num NaN)],
                   [(''a'', Num (Fin 5)), (''b'', Num (Fin 6))]],
            headers = [''a'', ''b'']\<rparr>"
    by (simp add: parse_defs scan_defs Let_def)
  have n: "numericValues
              \<lparr>data = [[(''a'', Num (Fin 1)), (''b'', Num (Fin 2))],
                       [(''a'', Num (Fin 3)), (''b'', Num NaN)],
                       [(''a'', Num (Fin 5)), (''b'', Num (Fin 6))]],
               headers = [''a'', ''b'']\<rparr> ''b'' = [Fin 2, NaN, Fin 6]"
    by (simp add: numericValues_def List.map_filter_def getProp_def)
  show ?thesis
    using empty_field_counted
            [of "''b''" "\<lparr>data = [[(''a'', Num (Fin 1)), (''b'', Num (Fin 2))],
                       [(''a'', Num (Fin 3)), (''b'', Num NaN)],
                       [(''a'', Num (Fin 5)), (''b'', Num (Fin 6))]],
               headers = [''a'', ''b'']\<rparr>"]
    unfolding n p
    by (simp add: getProp_def eval_nat_numeral)
qed

section \<open>The keys and cells of a row\<close>

lemma keys_setProp:
  "set (keys (setProp r k v)) =
     (if k = ''__proto__'' then set (keys r) else insert k (set (keys r)))"
  by (simp add: keys_def setProp_def dom_update)

lemma distinct_setProp: "distinct (keys r) \<Longrightarrow> distinct (keys (setProp r k v))"
  by (simp add: keys_def setProp_def distinct_update)

lemma keys_foldl_setProp:
  "set (keys (foldl (\<lambda>r (header, v). setProp r header (coerce v)) r0 hvs))
     = set (keys r0) \<union> (fst ` set hvs - {''__proto__''})"
  by (induction hvs arbitrary: r0) (auto simp: keys_setProp split: if_splits)

lemma distinct_foldl_setProp:
  "distinct (keys r0) \<Longrightarrow>
   distinct (keys (foldl (\<lambda>r (header, v). setProp r header (coerce v)) r0 hvs))"
  by (induction hvs arbitrary: r0) (auto simp: distinct_setProp)

lemma keys_makeRow:
  assumes "length values = length hs"
  shows "set (keys (makeRow hs values)) = set hs - {''__proto__''}"
    and "distinct (keys (makeRow hs values))"
proof -
  have "fst ` set (zip hs values) = set hs"
    using assms by (metis map_fst_zip set_map)
  then show "set (keys (makeRow hs values)) = set hs - {''__proto__''}"
    unfolding makeRow_def keys_foldl_setProp by (simp add: keys_def)
  show "distinct (keys (makeRow hs values))"
    unfolding makeRow_def by (rule distinct_foldl_setProp) (simp add: keys_def)
qed

lemma length_keys_makeRow:
  assumes "length values = length hs" "distinct hs" "''__proto__'' \<notin> set hs"
  shows "length (keys (makeRow hs values)) = length hs"
proof -
  have "length (keys (makeRow hs values)) = card (set (keys (makeRow hs values)))"
    using keys_makeRow(2) [OF assms(1)] by (simp add: distinct_card)
  also have "\<dots> = card (set hs)"
    using keys_makeRow(1) [OF assms(1)] assms(3) by simp
  also have "\<dots> = length hs"
    using assms(2) by (simp add: distinct_card)
  finally show ?thesis .
qed


text \<open>
  With pairwise distinct headers, none of them \<open>__proto__\<close>, a row holds under each
  header the coerced field of the same position.
\<close>

lemma map_of_makeRow:
  assumes "distinct (map fst hvs)" and "''__proto__'' \<notin> fst ` set hvs"
  shows "map_of (foldl (\<lambda>r (header, v). setProp r header (coerce v)) [] hvs)
         = map_of (map (\<lambda>(header, v). (header, coerce v)) hvs)"
  using assms
proof (induction hvs rule: rev_induct)
  case Nil
  show ?case by simp
next
  case (snoc x hvs)
  obtain k v where x: "x = (k, v)" by (cases x)
  have k: "k \<noteq> ''__proto__''" "k \<notin> fst ` set hvs"
    using snoc.prems by (auto simp: x)
  have ih: "map_of (foldl (\<lambda>r (header, v). setProp r header (coerce v)) [] hvs)
         = map_of (map (\<lambda>(header, v). (header, coerce v)) hvs)"
    using snoc by simp
  have "map fst (map (\<lambda>(header, v). (header, coerce v)) hvs) = map fst hvs"
    by (simp add: case_prod_unfold comp_def)
  then have "fst ` set (map (\<lambda>(header, v). (header, coerce v)) hvs) = fst ` set hvs"
    by (metis set_map)
  then have "k \<notin> dom (map_of (map (\<lambda>(header, v). (header, coerce v)) hvs))"
    using k(2) by (simp only: dom_map_of_conv_image_fst) simp
  then have "map_of (map (\<lambda>(header, v). (header, coerce v)) hvs @ [(k, coerce v)])
        = (map_of (map (\<lambda>(header, v). (header, coerce v)) hvs))(k \<mapsto> coerce v)"
    by (auto simp: map_add_def fun_eq_iff domIff split: option.splits)
  moreover have "map_of (setProp r0 k (coerce v)) = (map_of r0)(k \<mapsto> coerce v)" for r0
    using k(1) by (simp add: setProp_def update_conv')
  ultimately show ?case
    unfolding x by (simp add: ih)
qed

lemma getProp_makeRow:
  assumes "length values = length hs" and "distinct hs" and "''__proto__'' \<notin> set hs"
    and "i < length hs"
  shows "getProp (makeRow hs values) (hs ! i) = coerce (values ! i)"
proof -
  have z: "map (\<lambda>(header, v). (header, coerce v)) (zip hs values) = zip hs (map coerce values)"
    by (simp add: zip_map2)
  have f: "map fst (zip hs values) = hs"
    using assms(1) by (simp add: map_fst_zip)
  then have "fst ` set (zip hs values) = set hs"
    by (metis set_map)
  then have "map_of (makeRow hs values) = map_of (zip hs (map coerce values))"
    unfolding makeRow_def
    using map_of_makeRow [of "zip hs values"] assms(2,3) by (simp add: z f)
  moreover have "map_of (zip hs (map coerce values)) (hs ! i) = Some (map coerce values ! i)"
    using assms by (intro map_of_zip_nth) auto
  ultimately show ?thesis
    using assms by (simp add: getProp_def)
qed

section \<open>Columns of empty fields\<close>

lemma all_NaN_column:
  "coerce [] = Num NaN
   \<and> (data this \<noteq> [] \<and> h \<in> set (headers this)
        \<and> list_all (\<lambda>r. getProp r h = Num NaN) (data this) \<longrightarrow>
       h \<in> set (getNumericColumns this)
       \<and> (\<exists>s. getColumnStats this h = Inr (Some s)
              \<and> count s = length (data this)
              \<and> mean s = Text ''NaN'' \<and> median s = Text ''NaN'' \<and> stdev s = Text ''NaN''))"
proof -
  have "h \<in> set (getNumericColumns this)
       \<and> (\<exists>s. getColumnStats this h = Inr (Some s)
              \<and> count s = length (data this)
              \<and> mean s = Text ''NaN'' \<and> median s = Text ''NaN'' \<and> stdev s = Text ''NaN'')"
    if d: "data this \<noteq> []" and h: "h \<in> set (headers this)"
      and a: "list_all (\<lambda>r. getProp r h = Num NaN) (data this)"
  proof -
    have "map (\<lambda>r. getProp r h) (data this) = replicate (length (data this)) (Num NaN)"
      using a by (simp add: list_all_iff map_replicate_const [symmetric] cong: map_cong)
    then have v: "numericValues this h = replicate (length (data this)) NaN"
      by (simp add: numericValues_def List.map_filter_def)
    have ne: "numericValues this h \<noteq> []"
      using d by (simp add: v)
    have m: "NaN \<in> set (numericValues this h)"
      using d by (simp add: v)
    have s: "sumOf (numericValues this h) = NaN"
      using m by (rule sumOf_NaN)
    have "length (data this) div 2 < length (data this)"
      using d by simp
    then have e: "elemAt (sortNumbers (numericValues this h)) (length (numericValues this h) div 2)
             = Num NaN"
      by (simp add: v sortNumbers_replicate_NaN elemAt_def)
    have g: "h \<in> set (getNumericColumns this)"
      using d h a by (cases "data this") (auto simp: getNumericColumns_def isNumber_def)
    obtain mid where
      "elemAt (sortNumbers (numericValues this h)) (length (numericValues this h) div 2) = Num mid"
      and st: "getColumnStats this h =
       Inr (Some \<lparr>count = length (numericValues this h),
                  minv = elemAt (sortNumbers (numericValues this h)) 0,
                  maxv = elemAt (sortNumbers (numericValues this h))
                           (length (numericValues this h) - 1),
                  mean = toFixed2 (divide (sumOf (numericValues this h))
                                     (Fin (real (length (numericValues this h))))),
                  median = toFixed2 mid,
                  stdev = toFixed2 (calculateStdev (numericValues this h)
                            (divide (sumOf (numericValues this h))
                               (Fin (real (length (numericValues this h))))))\<rparr>)"
      using getColumnStats_Some [OF ne] by blast
    then have mid: "mid = NaN" using e by simp
    have "length (numericValues this h) = length (data this)"
      by (simp add: v)
    then show ?thesis
      using g st by (simp add: mid s calculateStdev_NaN [OF ne] toFixed2_NaN)
  qed
  then show ?thesis by (simp add: coerce_examples)
qed


lemma accepted_row_cell:
  assumes "l \<in> set (acceptedLines s)" and "distinct (headerFields s)"
    and "''__proto__'' \<notin> set (headerFields s)" and "i < length (headerFields s)"
  shows "getProp (makeRow (headerFields s) (parseCSVLine (trim l))) (headerFields s ! i)
         = coerce (parseCSVLine (trim l) ! i)"
proof -
  have "length (parseCSVLine (trim l)) = length (headerFields s)"
    using assms(1) by (simp add: acceptedLines_def fieldCount_def)
  then show ?thesis
    using assms(2,3,4) by (rule getProp_makeRow)
qed

text \<open>
  Claim C10, as amended. An empty raw field is coerced to the number NaN. When the
  header names are pairwise distinct and none is \<open>__proto__\<close>, and \<open>parse\<close> succeeds, a
  column whose field is empty in every accepted data line holds NaN in every row; it is
  listed by \<open>getNumericColumns\<close>, and \<open>getColumnStats\<close> returns a statistics object for
  it that counts every row and whose mean, median and standard deviation are the text
  \<open>NaN\<close>.
\<close>

theorem empty_column_is_numeric:
  "coerce [] = Num NaN
   \<and> (fst (parse s this) = Inr t
        \<and> distinct (headerFields s) \<and> ''__proto__'' \<notin> set (headerFields s)
        \<and> i < length (headerFields s)
        \<and> list_all (\<lambda>l. parseCSVLine (trim l) ! i = []) (acceptedLines s) \<longrightarrow>
       snd (parse s this) = t
       \<and> list_all (\<lambda>r. getProp r (headerFields s ! i) = Num NaN) (data t)
       \<and> headerFields s ! i \<in> set (getNumericColumns t)
       \<and> (\<exists>st. getColumnStats t (headerFields s ! i) = Inr (Some st)
              \<and> count st = length (data t)
              \<and> mean st = Text ''NaN'' \<and> median st = Text ''NaN'' \<and> stdev st = Text ''NaN''))"
proof -
  have "snd (parse s this) = t
       \<and> list_all (\<lambda>r. getProp r (headerFields s ! i) = Num NaN) (data t)
       \<and> headerFields s ! i \<in> set (getNumericColumns t)
       \<and> (\<exists>st. getColumnStats t (headerFields s ! i) = Inr (Some st)
              \<and> count st = length (data t)
              \<and> mean st = Text ''NaN'' \<and> median st = Text ''NaN'' \<and> stdev st = Text ''NaN'')"
    if ok: "fst (parse s this) = Inr t"
      and dist: "distinct (headerFields s)" and np: "''__proto__'' \<notin> set (headerFields s)"
      and i: "i < length (headerFields s)"
      and em: "list_all (\<lambda>l. parseCSVLine (trim l) ! i = []) (acceptedLines s)"
  proof -
    note ps = parse_success [OF ok]
    have d: "data t = map (\<lambda>l. makeRow (headerFields s) (parseCSVLine (trim l))) (acceptedLines s)"
      and h: "headers t = headerFields s"
      by (simp_all add: ps(2))
    have cells: "list_all (\<lambda>r. getProp r (headerFields s ! i) = Num NaN) (data t)"
      unfolding d list_all_iff
    proof
      fix r
      assume "r \<in> set (map (\<lambda>l. makeRow (headerFields s) (parseCSVLine (trim l)))
                          (acceptedLines s))"
      then obtain l where l: "l \<in> set (acceptedLines s)"
        and r: "r = makeRow (headerFields s) (parseCSVLine (trim l))"
        by auto
      have "parseCSVLine (trim l) ! i = []"
        using em l by (simp add: list_all_iff)
      then show "getProp r (headerFields s ! i) = Num NaN"
        using accepted_row_cell [OF l dist np i] by (simp add: r coerce_examples)
    qed
    have ne: "data t \<noteq> []"
      using ps(1) by (simp add: d)
    have hin: "headerFields s ! i \<in> set (headers t)"
      using i by (simp add: h)
    show ?thesis
      using all_NaN_column [of t "headerFields s ! i"] ne hin cells ps(3) by simp
  qed
  then show ?thesis
    by (simp add: coerce_examples)
qed

theorem empty_column_is_numeric_witness:
  "fst (parse ''a,b\<newline>1,\<newline>2,'' \<lparr>data = [], headers = []\<rparr>)
     = Inr \<lparr>data = [[(''a'', Num (Fin 1)), (''b'', Num NaN)],
                   [(''a'', Num (Fin 2)), (''b'', Num NaN)]],
            headers = [''a'', ''b'']\<rparr>
   \<and> acceptedLines ''a,b\<newline>1,\<newline>2,'' = [''1,'', ''2,'']
   \<and> map (\<lambda>l. parseCSVLine (trim l) ! 1) [''1,'', ''2,''] = [[], []]
   \<and> ''b'' \<in> set (getNumericColumns
                     \<lparr>data = [[(''a'', Num (Fin 1)), (''b'', Num NaN)],
                              [(''a'', Num (Fin 2)), (''b'', Num NaN)]],
                      headers = [''a'', ''b'']\<rparr>)
   \<and> (\<exists>st. getColumnStats
              \<lparr>data = [[(''a'', Num (Fin 1)), (''b'', Num NaN)],
                       [(''a'', Num (Fin 2)), (''b'', Num NaN)]],
               headers = [''a'', ''b'']\<rparr> ''b'' = Inr (Some st)
          \<and> count st = 2
          \<and> mean st = Text ''NaN'' \<and> median st = Text ''NaN'' \<and> stdev st = Text ''NaN'')"
proof -
  have p: "fst (parse ''a,b\<newline>1,\<newline>2,'' \<lparr>data = [], headers = []\<rparr>)
     = Inr \<lparr>data = [[(''a'', Num (Fin 1)), (''b'', Num NaN)],
                   [(''a'', Num (Fin 2)), (''b'', Num NaN)]],
            headers = [''a'', ''b'']\<rparr>"
    by (simp add: parse_defs scan_defs Let_def)
  have h: "headerFields ''a,b\<newline>1,\<newline>2,'' = [''a'', ''b'']"
    by (simp add: headerFields_def parse_defs trim_def isWhiteSpace_def)
  have a: "acceptedLines ''a,b\<newline>1,\<newline>2,'' = [''1,'', ''2,'']"
    by (simp add: acceptedLines_def h dataLines_def nonBlank_def fieldCount_def parse_defs
             trim_def isWhiteSpace_def)
  have c: "map (\<lambda>l. parseCSVLine (trim l) ! 1) [''1,'', ''2,''] = [[], []]"
    by (simp add: parse_defs trim_def isWhiteSpace_def)
  note t = empty_column_is_numeric
             [of "''a,b\<newline>1,\<newline>2,''" "\<lparr>data = [], headers = []\<rparr>"
                 "\<lparr>data = [[(''a'', Num (Fin 1)), (''b'', Num NaN)],
                          [(''a'', Num (Fin 2)), (''b'', Num NaN)]],
                  headers = [''a'', ''b'']\<rparr>" 1]
  show ?thesis
    using t p c unfolding a h by (simp add: eval_nat_numeral)
qed

text \<open>
  Claim C10 as stated fails for a repeated header. In \<open>a,a\<close> / \<open>,x\<close> every cell of the
  first column comes from an empty field, but the record keeps one value per name, the
  later one: the column is not listed as numeric and has no statistics.
\<close>

theorem empty_column_counterexample:
  "parseCSVLine '',x'' = [[], ''x'']
   \<and> snd (parse ''a,a\<newline>,x'' \<lparr>data = [], headers = []\<rparr>)
       = \<lparr>data = [[(''a'', Str ''x'')]], headers = [''a'', ''a'']\<rparr>
   \<and> getNumericColumns \<lparr>data = [[(''a'', Str ''x'')]], headers = [''a'', ''a'']\<rparr> = []
   \<and> getColumnStats \<lparr>data = [[(''a'', Str ''x'')]], headers = [''a'', ''a'']\<rparr> ''a'' = Inr None"
proof -
  have "numericValues \<lparr>data = [[(''a'', Str ''x'')]], headers = [''a'', ''a'']\<rparr> ''a'' = []"
    by (simp add: numericValues_def List.map_filter_def getProp_def)
  then have "getColumnStats \<lparr>data = [[(''a'', Str ''x'')]], headers = [''a'', ''a'']\<rparr> ''a''
             = Inr None"
    by (simp add: getColumnStats_def)
  then show ?thesis
    by (simp add: parse_defs coerce_examples trim_def isWhiteSpace_def Let_def
             getNumericColumns_def getProp_def isNumber_def)
qed


section \<open>Column statistics over finite values\<close>

lemma sorted_first_Min:
  fixes xs :: "real list"
  assumes "sorted xs" "xs \<noteq> []"
  shows "xs ! 0 = Min (set xs)"
proof -
  obtain y ys where xs: "xs = y # ys" using assms(2) by (cases xs) auto
  have "Min (set xs) = y"
    by (rule Min_eqI) (use assms(1) xs in auto)
  then show ?thesis by (simp add: xs)
qed

lemma sorted_last_Max:
  fixes xs :: "real list"
  assumes "sorted xs" "xs \<noteq> []"
  shows "xs ! (length xs - 1) = Max (set xs)"
proof -
  have "Max (set xs) = xs ! (length xs - 1)"
  proof (rule Max_eqI)
    fix y assume "y \<in> set xs"
    then obtain i where "i < length xs" "xs ! i = y"
      by (auto simp: in_set_conv_nth)
    then show "y \<le> xs ! (length xs - 1)"
      using sorted_nth_mono [OF assms(1), of i "length xs - 1"] by auto
  qed (use assms(2) in auto)
  then show ?thesis by simp
qed


text \<open>On binary64 values the comparator orders as \<open><\<close> does, so the sort is ascending.\<close>

lemma insertSorted_doubles:
  "isDouble x \<Longrightarrow> list_all isDouble ys \<Longrightarrow>
   insertSorted (Fin x) (map Fin ys) = map Fin (insort x ys)"
  by (induction ys) (auto simp: sub_def positive_fl_diff)

lemma list_all_insort: "list_all P (insort x ys) \<longleftrightarrow> P x \<and> list_all P ys"
  by (simp add: list_all_iff set_insort_key)

lemma sortNumbers_doubles:
  "list_all isDouble rs \<Longrightarrow>
   sortNumbers (map Fin rs) = map Fin (sort rs) \<and> list_all isDouble (sort rs)"
proof (induction rs)
  case Nil
  show ?case by (simp add: sortNumbers_def)
next
  case (Cons x rs)
  then have ih: "sortNumbers (map Fin rs) = map Fin (sort rs)" "list_all isDouble (sort rs)"
    and x: "isDouble x"
    by simp_all
  have "sortNumbers (map Fin (x # rs)) = insertSorted (Fin x) (sortNumbers (map Fin rs))"
    by (simp add: sortNumbers_def)
  also have "\<dots> = map Fin (insort x (sort rs))"
    unfolding ih(1) using x ih(2) by (rule insertSorted_doubles)
  finally show ?case
    using x ih(2) by (simp add: list_all_insort)
qed

lemma sumOf_map_Fin: "sumOf (map Fin rs) = foldl (\<lambda>acc v. add acc (Fin v)) (Fin 0) rs"
  by (simp add: sumOf_def foldl_map)

lemma calculateStdev_map_Fin:
  "calculateStdev (map Fin rs) (meanDouble rs) = stdevDouble rs"
  by (simp add: calculateStdev_def stdevDouble_def Let_def sumOf_def foldl_map comp_def)

lemma getColumnStats_doubles:
  assumes ne: "rs \<noteq> []" and v: "numericValues t c = map Fin rs" and d: "list_all isDouble rs"
  shows "getColumnStats t c =
           Inr (Some \<lparr>count = length rs,
                      minv = Num (Fin (Min (set rs))),
                      maxv = Num (Fin (Max (set rs))),
                      mean = toFixed2 (meanDouble rs),
                      median = toFixed2 (Fin (specMedian rs)),
                      stdev = toFixed2 (stdevDouble rs)\<rparr>)"
proof -
  have n: "length rs div 2 < length rs" "0 < length rs" "length rs - 1 < length rs"
    using ne by simp_all
  have s: "sort rs \<noteq> []" "sorted (sort rs)"
    using ne by (metis length_0_conv length_sort) simp
  have lo: "sort rs ! 0 = Min (set rs)"
    using sorted_first_Min [OF s(2) s(1)] by simp
  have hi: "sort rs ! (length rs - Suc 0) = Max (set rs)"
    using sorted_last_Max [OF s(2) s(1)] by simp
  have so: "sortNumbers (map Fin rs) = map Fin (sort rs)"
    using sortNumbers_doubles [OF d] by simp
  have m: "divide (sumOf (map Fin rs)) (Fin (real (length (map Fin rs)))) = meanDouble rs"
    by (simp add: sumOf_map_Fin meanDouble_def)
  show ?thesis
    unfolding getColumnStats_def Let_def v m so calculateStdev_map_Fin
    using ne n by (simp add: elemAt_def lo hi specMedian_def)
qed

text \<open>Every finite number that \<open>parse\<close> stores is a binary64 value.\<close>

lemma scanUnsigned_double: "scanUnsigned s = Some (Fin r, rest) \<Longrightarrow> isDouble r"
  by (auto simp: scanUnsigned_def Let_def split: if_splits prod.splits dest: fl_isDouble)

lemma neg_Fin: "neg v = Fin r \<Longrightarrow> v = Fin (- r)"
  by (cases v) auto

lemma scanDecimal_double:
  assumes "scanDecimal s = Some (Fin r, rest)"
  shows "isDouble r"
proof (cases s)
  case Nil
  then show ?thesis using assms by (simp add: scanDecimal_def)
next
  case (Cons c cs)
  show ?thesis
  proof (cases "c = CHR ''-''")
    case True
    then obtain v where "scanUnsigned cs = Some (v, rest)" "neg v = Fin r"
      using assms Cons by (auto simp: scanDecimal_def)
    then have "scanUnsigned cs = Some (Fin (- r), rest)"
      by (simp add: neg_Fin)
    then have "isDouble (- r)" by (rule scanUnsigned_double)
    then show ?thesis using isDouble_minus [of "- r"] by simp
  next
    case False
    then show ?thesis
      using assms Cons by (auto simp: scanDecimal_def split: if_splits dest: scanUnsigned_double)
  qed
qed

lemma coerce_double: "coerce v = Num (Fin r) \<Longrightarrow> isDouble r"
  by (auto simp: coerce_def parseFloat_def split: if_splits option.splits
           dest: scanDecimal_double)

lemma set_update_subset: "set (AList.update k v al) \<subseteq> insert (k, v) (set al)"
  by (induction al) auto

lemma makeRow_cells:
  assumes "(k, x) \<in> set (foldl (\<lambda>r (header, v). setProp r header (coerce v)) r0 hvs)"
    and "\<forall>(k, x) \<in> set r0. x \<in> range coerce"
  shows "x \<in> range coerce"
  using assms
proof (induction hvs arbitrary: r0)
  case Nil
  then show ?case by auto
next
  case (Cons hv hvs)
  obtain h v where hv: "hv = (h, v)" by (cases hv)
  have "\<forall>(k, x) \<in> set (setProp r0 h (coerce v)). x \<in> range coerce"
    using Cons.prems(2) set_update_subset [of h "coerce v" r0]
    by (auto simp: setProp_def)
  then show ?case
    using Cons.IH [of "setProp r0 h (coerce v)"] Cons.prems(1) by (simp add: hv)
qed

lemma getProp_Num: "getProp r c = Num x \<Longrightarrow> (c, Num x) \<in> set r"
  by (auto simp: getProp_def split: option.splits if_splits dest: map_of_SomeD)

lemma parse_doubles:
  assumes ok: "fst (parse s this) = Inr t" and v: "numericValues t c = map Fin rs"
  shows "list_all isDouble rs"
  unfolding list_all_iff
proof
  fix x
  assume "x \<in> set rs"
  then have "Fin x \<in> set (numericValues t c)"
    by (simp add: v)
  then obtain r where r: "r \<in> set (data t)" and g: "getProp r c = Num (Fin x)"
    by (auto simp: numericValues_member)
  obtain l where "r = makeRow (headerFields s) (parseCSVLine (trim l))"
    using r parse_success(2) [OF ok] by auto
  then have "(c, Num (Fin x)) \<in>
        set (foldl (\<lambda>r (header, v). setProp r header (coerce v)) []
               (zip (headerFields s) (parseCSVLine (trim l))))"
    using getProp_Num [OF g] by (simp add: makeRow_def)
  then have "Num (Fin x) \<in> range coerce"
    by (rule makeRow_cells) simp
  then show "isDouble x"
    by (auto dest: coerce_double [OF sym])
qed

lemma toFixed2_small:
  "\<bar>r\<bar> < 10 ^ 21 \<Longrightarrow>
   toFixed2 (Fin r)
     = Text ((if r < 0 then ''-'' else []) @ twoDecimals (nat \<lfloor>\<bar>r\<bar> * 100 + 1 / 2\<rfloor>))"
  by (simp add: toFixed2_def)



lemma toFixed2_nonneg:
  assumes "0 \<le> r" and "r < 10 ^ 21" and "\<lfloor>r * 100 + 1 / 2\<rfloor> = int n"
    and "decimalDigits n = m" and "3 \<le> length m"
  shows "toFixed2 (Fin r) = Text (take (length m - 2) m @ ''.'' @ drop (length m - 2) m)"
proof -
  have a: "\<bar>r\<bar> = r" using assms(1) by simp
  have b: "\<bar>r\<bar> < 10 ^ 21" "\<not> r < 0" using assms(1,2) by simp_all
  have c: "nat \<lfloor>r * 100 + 1 / 2\<rfloor> = n" using assms(3) by simp
  have d: "replicate (3 - length m) (CHR ''0'') @ m = m" using assms(5) by simp
  show ?thesis
    unfolding toFixed2_small [OF b(1)] a c twoDecimals_def Let_def assms(4) d
    using b(2) by simp
qed









text \<open>
  Rounding is visible on ordinary data. The cells \<open>7.22\<close> and \<open>7.23\<close> are stored as the
  nearest binary64 values; their sum falls halfway between two binary64 values and rounds
  to the even one; the mean is printed as \<open>7.22\<close>, where the decimals' exact mean 7.225
  would be printed as \<open>7.23\<close>.
\<close>

lemma fl_round:
  assumes lo: "2 powi e \<le> \<bar>x\<bar>" and hi: "\<bar>x\<bar> < 2 powi (e + 1)" and e: "- 1022 \<le> e"
    and n: "roundHalfEven (x / 2 powi (e - 52)) = n"
    and lim: "\<bar>real_of_int n * 2 powi (e - 52)\<bar> < 2 ^ 1024"
  shows "fl x = Fin (real_of_int n * 2 powi (e - 52))"
proof -
  have "(0::real) < 2 powi e" by simp
  then have "0 < \<bar>x\<bar>" using lo by (rule less_le_trans)
  then have x0: "x \<noteq> 0" by simp
  have "\<lfloor>log 2 \<bar>x\<bar>\<rfloor> < e + 1"
    by (rule floor_log2_less [OF x0 hi])
  moreover have "real_of_int e \<le> log 2 \<bar>x\<bar>"
    using le_log2_iff [OF x0, of e] lo by blast
  then have "e \<le> \<lfloor>log 2 \<bar>x\<bar>\<rfloor>"
    by (simp add: le_floor_iff)
  ultimately have "\<lfloor>log 2 \<bar>x\<bar>\<rfloor> = e" by linarith
  then have b: "binade x = e"
    using e by (simp add: binade_def)
  have "\<not> 2 ^ 1024 \<le> real_of_int n * 2 powi (e - 52)"
    "\<not> real_of_int n * 2 powi (e - 52) \<le> - (2 ^ 1024)"
    using lim by linarith+
  then show ?thesis
    using x0 by (simp add: fl_def Let_def b n)
qed

lemma fl_722: "fl (361 / 50) = Fin (8128997327403745 / 2 ^ 50)"
proof -
  have r: "roundHalfEven (361 / 50 / 2 powi (2 - 52)) = 8128997327403745"
    by (simp add: roundHalfEven_def Let_def)
  show ?thesis
    using fl_round [of 2 "361 / 50" 8128997327403745] r by simp
qed

lemma fl_723: "fl (723 / 100) = Fin (8140256326472172 / 2 ^ 50)"
proof -
  have r: "roundHalfEven (723 / 100 / 2 powi (2 - 52)) = 8140256326472172"
    by (simp add: roundHalfEven_def Let_def)
  show ?thesis
    using fl_round [of 2 "723 / 100" 8140256326472172] r by simp
qed

lemma coerce_722: "coerce ''7.22'' = Num (Fin (8128997327403745 / 2 ^ 50))"
  using fl_722 by (simp add: scan_defs)

lemma coerce_723: "coerce ''7.23'' = Num (Fin (8140256326472172 / 2 ^ 50))"
  using fl_723 by (simp add: scan_defs)

lemma fl_sum_722_723:
  "fl (8128997327403745 / 2 ^ 50 + 8140256326472172 / 2 ^ 50) = Fin (8134626826937958 / 2 ^ 49)"
proof -
  have r: "roundHalfEven ((8128997327403745 / 2 ^ 50 + 8140256326472172 / 2 ^ 50) / 2 powi (3 - 52))
           = 8134626826937958"
    by (simp add: roundHalfEven_def Let_def)
  show ?thesis
    using fl_round [of 3 "8128997327403745 / 2 ^ 50 + 8140256326472172 / 2 ^ 50" 8134626826937958] r
    by simp
qed


lemma meanDouble_722_723:
  "meanDouble [8128997327403745 / 2 ^ 50, 8140256326472172 / 2 ^ 50]
   = Fin (8134626826937958 / 2 ^ 50)"
proof -
  have a: "fl (8128997327403745 / 2 ^ 50) = Fin (8128997327403745 / 2 ^ 50)"
    by (rule fl_exact, rule isDoubleI [of _ 8128997327403745 "- 50"]) simp_all
  have h: "fl (8134626826937958 / 2 ^ 49 / 2) = Fin (8134626826937958 / 2 ^ 50)"
  proof -
    have "fl (8134626826937958 / 2 ^ 50) = Fin (8134626826937958 / 2 ^ 50)"
      by (rule fl_exact, rule isDoubleI [of _ 8134626826937958 "- 50"]) simp_all
    then show ?thesis by simp
  qed
  have "meanDouble [8128997327403745 / 2 ^ 50, 8140256326472172 / 2 ^ 50]
        = divide (add (add (Fin 0) (Fin (8128997327403745 / 2 ^ 50)))
                    (Fin (8140256326472172 / 2 ^ 50))) (Fin 2)"
    by (simp add: meanDouble_def)
  also have "add (Fin 0) (Fin (8128997327403745 / 2 ^ 50)) = Fin (8128997327403745 / 2 ^ 50)"
    using a by simp
  also have "add (Fin (8128997327403745 / 2 ^ 50)) (Fin (8140256326472172 / 2 ^ 50))
             = Fin (8134626826937958 / 2 ^ 49)"
    using fl_sum_722_723 by simp
  also have "divide (Fin (8134626826937958 / 2 ^ 49)) (Fin 2) = Fin (8134626826937958 / 2 ^ 50)"
    using h by simp
  finally show ?thesis .
qed

lemma mean_of_722_723:
  "fst (parse ''v\<newline>7.22\<newline>7.23'' \<lparr>data = [], headers = []\<rparr>)
     = Inr \<lparr>data = [[(''v'', Num (Fin (8128997327403745 / 2 ^ 50)))],
                   [(''v'', Num (Fin (8140256326472172 / 2 ^ 50)))]],
            headers = [''v'']\<rparr>
   \<and> (\<exists>st. getColumnStats
               \<lparr>data = [[(''v'', Num (Fin (8128997327403745 / 2 ^ 50)))],
                        [(''v'', Num (Fin (8140256326472172 / 2 ^ 50)))]],
                headers = [''v'']\<rparr> ''v'' = Inr (Some st)
          \<and> count st = 2 \<and> mean st = Text ''7.22'')"
proof -
  let ?t = "\<lparr>data = [[(''v'', Num (Fin (8128997327403745 / 2 ^ 50)))],
                        [(''v'', Num (Fin (8140256326472172 / 2 ^ 50)))]],
                headers = [''v'']\<rparr>"
  have p: "fst (parse ''v\<newline>7.22\<newline>7.23'' \<lparr>data = [], headers = []\<rparr>) = Inr ?t"
    by (simp add: parse_defs coerce_722 coerce_723 trim_def isWhiteSpace_def Let_def)
  have n: "numericValues ?t ''v''
           = map Fin [8128997327403745 / 2 ^ 50, 8140256326472172 / 2 ^ 50]"
    by (simp add: numericValues_def List.map_filter_def getProp_def)
  have d: "list_all isDouble [8128997327403745 / 2 ^ 50, 8140256326472172 / 2 ^ 50]"
    using parse_doubles [OF p n] .
  have dd: "decimalDigits 722 = ''722''"
    by (simp add: decimalDigits.simps digitChar_def)
  have f: "toFixed2 (Fin (8134626826937958 / 2 ^ 50)) = Text ''7.22''"
    using toFixed2_nonneg [of "8134626826937958 / 2 ^ 50" 722 "''722''"] by (simp add: dd)
  let ?rs = "[8128997327403745 / 2 ^ 50, 8140256326472172 / 2 ^ 50] :: real list"
  have "getColumnStats ?t ''v'' =
           Inr (Some \<lparr>count = length ?rs,
                      minv = Num (Fin (Min (set ?rs))),
                      maxv = Num (Fin (Max (set ?rs))),
                      mean = toFixed2 (meanDouble ?rs),
                      median = toFixed2 (Fin (specMedian ?rs)),
                      stdev = toFixed2 (stdevDouble ?rs)\<rparr>)"
    by (rule getColumnStats_doubles [OF _ n d]) simp
  then have "getColumnStats ?t ''v'' =
           Inr (Some \<lparr>count = length ?rs,
                      minv = Num (Fin (Min (set ?rs))),
                      maxv = Num (Fin (Max (set ?rs))),
                      mean = Text ''7.22'',
                      median = toFixed2 (Fin (specMedian ?rs)),
                      stdev = toFixed2 (stdevDouble ?rs)\<rparr>)"
    unfolding meanDouble_722_723 f .
  then have "\<exists>st. getColumnStats ?t ''v'' = Inr (Some st)
          \<and> count st = 2 \<and> mean st = Text ''7.22''"
    by simp
  then show ?thesis
    using p by blast
qed




section \<open>Inputs with rows of one width\<close>

text \<open>
  Claim C4, as amended. When the trimmed input has at least one non-blank data line and
  every non-blank data line has as many fields as the header line, \<open>parse\<close> succeeds;
  the parser stores the table it returns; and the table has one row for each non-blank
  data line. When no header is named \<open>__proto__\<close>, the keys of every row are the header
  names, each once; when in addition the header names are pairwise distinct, every row
  has exactly \<open>headers.length\<close> keys.
\<close>

theorem parse_consistent_rows:
  assumes some: "filter nonBlank (dataLines s) \<noteq> []"
    and width: "\<forall>l \<in> set (filter nonBlank (dataLines s)). fieldCount l = length (headerFields s)"
  shows "\<exists>t. parse s this = (Inr t, t)
           \<and> headers t = headerFields s
           \<and> length (data t) = length (filter nonBlank (dataLines s))
           \<and> (''__proto__'' \<notin> set (headers t) \<longrightarrow>
                (\<forall>r \<in> set (data t). set (keys r) = set (headers t) \<and> distinct (keys r))
                \<and> (distinct (headers t) \<longrightarrow>
                     (\<forall>r \<in> set (data t). length (keys r) = length (headers t))))"
proof -
  let ?hs = "headerFields s"
  let ?rows = "map (\<lambda>l. makeRow ?hs (parseCSVLine (trim l))) (acceptedLines s)"
  let ?t = "\<lparr>data = ?rows, headers = ?hs\<rparr>"
  have f: "acceptedLines s = filter nonBlank (dataLines s)"
    unfolding acceptedLines_def using width by (auto intro: filter_cong)
  have ne: "acceptedLines s \<noteq> []"
    using some by (simp add: f)
  have p: "parse s this = (Inr ?t, ?t)"
    by (rule parse_accepted [OF ne])
  have len: "length (parseCSVLine (trim l)) = length ?hs" if "l \<in> set (acceptedLines s)" for l
    using that by (simp add: acceptedLines_def fieldCount_def)
  have src: "\<exists>l \<in> set (acceptedLines s). r = makeRow ?hs (parseCSVLine (trim l))"
    if "r \<in> set ?rows" for r
    using that by auto
  have k: "set (keys r) = set ?hs \<and> distinct (keys r)"
    if rin: "r \<in> set ?rows" and np: "''__proto__'' \<notin> set ?hs" for r
  proof -
    obtain l where l: "l \<in> set (acceptedLines s)"
      and r: "r = makeRow ?hs (parseCSVLine (trim l))"
      using src [OF rin] by blast
    show ?thesis
      using keys_makeRow [OF len [OF l]] np by (simp add: r)
  qed
  have n: "length (keys r) = length ?hs"
    if rin: "r \<in> set ?rows" and np: "''__proto__'' \<notin> set ?hs" and dist: "distinct ?hs" for r
  proof -
    obtain l where l: "l \<in> set (acceptedLines s)"
      and r: "r = makeRow ?hs (parseCSVLine (trim l))"
      using src [OF rin] by blast
    show ?thesis
      using length_keys_makeRow [OF len [OF l] dist np] by (simp add: r)
  qed
  show ?thesis
  proof (intro exI [of _ ?t] conjI impI)
    show "parse s this = (Inr ?t, ?t)" by (rule p)
    show "headers ?t = ?hs" by simp
    show "length (data ?t) = length (filter nonBlank (dataLines s))" by (simp add: f)
    show "\<forall>r \<in> set (data ?t). set (keys r) = set (headers ?t) \<and> distinct (keys r)"
      if "''__proto__'' \<notin> set (headers ?t)"
      using k that by simp
    show "\<forall>r \<in> set (data ?t). length (keys r) = length (headers ?t)"
      if "''__proto__'' \<notin> set (headers ?t)" "distinct (headers ?t)"
      using n that by simp
  qed
qed

theorem parse_consistent_rows_witness:
  "filter nonBlank (dataLines ''a,b\<newline>1,2\<newline> \<newline>x,4'') = [''1,2'', ''x,4'']
   \<and> map fieldCount [''1,2'', ''x,4''] = [2, 2]
   \<and> headerFields ''a,b\<newline>1,2\<newline> \<newline>x,4'' = [''a'', ''b'']
   \<and> (\<exists>t. parse ''a,b\<newline>1,2\<newline> \<newline>x,4'' \<lparr>data = [], headers = []\<rparr> = (Inr t, t)
          \<and> headers t = [''a'', ''b'']
          \<and> length (data t) = 2
          \<and> (\<forall>r \<in> set (data t). set (keys r) = {''a'', ''b''} \<and> length (keys r) = 2))"
proof -
  have d: "filter nonBlank (dataLines ''a,b\<newline>1,2\<newline> \<newline>x,4'') = [''1,2'', ''x,4'']"
    by (simp add: nonBlank_def dataLines_def split_def trim_def isWhiteSpace_def)
  have c: "map fieldCount [''1,2'', ''x,4''] = [2, 2]"
    by (simp add: fieldCount_def parseCSVLine_def trim_def isWhiteSpace_def)
  have h: "headerFields ''a,b\<newline>1,2\<newline> \<newline>x,4'' = [''a'', ''b'']"
    by (simp add: headerFields_def parseCSVLine_def split_def trim_def isWhiteSpace_def)
  show ?thesis
    using parse_consistent_rows [of "''a,b\<newline>1,2\<newline> \<newline>x,4''" "\<lparr>data = [], headers = []\<rparr>"] c
    unfolding d h
    by auto
qed

text \<open>
  Claim C4 as stated fails twice. The header-only text \<open>a,b\<close> has no data line of a
  wrong width, and \<open>parse\<close> throws. The text \<open>a,a\<close> / \<open>1,2\<close> has a data line of the
  header's width, and its one record has the single key \<open>a\<close> where the headers are two.
\<close>

theorem parse_consistent_rows_counterexample:
  "fst (parse ''a,b'' \<lparr>data = [], headers = []\<rparr>)
     = Inl (Error ''No valid data rows found in CSV'')
   \<and> fst (parse ''a,a\<newline>1,2'' \<lparr>data = [], headers = []\<rparr>)
       = Inr \<lparr>data = [[(''a'', Num (Fin 2))]], headers = [''a'', ''a'']\<rparr>"
  by (simp add: parse_defs coerce_examples trim_def isWhiteSpace_def Let_def)

end
